theory Spec2Isabelle
  imports Complex_Main "HOL-Library.Word"
begin

section \<open>The loaders of sbr.cpp: rules file and facts file\<close>

text \<open>
  A shallow embedding of \<^verbatim>\<open>src/sbr.cpp\<close>: the text helpers \<^verbatim>\<open>toLower\<close> and
  \<^verbatim>\<open>trim\<close>, the antecedent parser \<^verbatim>\<open>parsearAntecedente\<close> and the two loaders
  \<^verbatim>\<open>cargarReglas\<close> and \<^verbatim>\<open>cargarHechos\<close>.

  A \<^verbatim>\<open>std::string\<close> is a \<^typ>\<open>string\<close> (a list of bytes), a position is a
  \<^typ>\<open>nat\<close> and \<^verbatim>\<open>std::string::npos\<close> is \<^term>\<open>None\<close>. An input stream is the
  string of the bytes not yet read. A \<^verbatim>\<open>return false\<close> is a value that names the
  message written to \<^verbatim>\<open>std::cerr\<close> just before it; an exception that no handler
  of the program catches is a value of its own.
\<close>

subsection \<open>The parts of the C++ library the program calls\<close>

text \<open>\<^verbatim>\<open>s.substr(pos, n)\<close> and \<^verbatim>\<open>s.substr(pos)\<close>. Both throw when
  \<^verbatim>\<open>pos > s.size()\<close>; every call of the program has \<^verbatim>\<open>pos \<le> s.size()\<close>, since
  its positions come from a successful search in a string of the same length.\<close>

definition substr :: "string \<Rightarrow> nat \<Rightarrow> nat \<Rightarrow> string" where
  "substr s pos n = take n (drop pos s)"

definition substr_from :: "string \<Rightarrow> nat \<Rightarrow> string" where
  "substr_from s pos = drop pos s"

text \<open>\<^verbatim>\<open>pat\<close> stands in \<^verbatim>\<open>s\<close> at position \<^verbatim>\<open>i\<close>.\<close>

definition occurs_at :: "string \<Rightarrow> string \<Rightarrow> nat \<Rightarrow> bool" where
  "occurs_at s pat i = (i + length pat \<le> length s \<and> take (length pat) (drop i s) = pat)"

text \<open>\<^verbatim>\<open>s.find(pat, pos)\<close>: the first position, from \<^verbatim>\<open>pos\<close> on, where
  \<^verbatim>\<open>pat\<close> stands. \<^verbatim>\<open>s.rfind(pat)\<close>: the last such position.
  \<^verbatim>\<open>s.rfind(pat, pos)\<close>: the last one at or before \<^verbatim>\<open>pos\<close>. A search for a
  character is the search for the string of that one character.\<close>

definition str_find :: "string \<Rightarrow> string \<Rightarrow> nat \<Rightarrow> nat option" where
  "str_find s pat pos = List.find (occurs_at s pat) [pos ..< Suc (length s)]"

definition str_rfind_from :: "string \<Rightarrow> string \<Rightarrow> nat \<Rightarrow> nat option" where
  "str_rfind_from s pat pos =
     List.find (occurs_at s pat) (rev [0 ..< Suc (min pos (length s))])"

definition str_rfind :: "string \<Rightarrow> string \<Rightarrow> nat option" where
  "str_rfind s pat = str_rfind_from s pat (length s)"

text \<open>\<^verbatim>\<open>std::tolower\<close> in the "C" locale, the only locale of a program that never
  calls \<^verbatim>\<open>setlocale\<close>: the 26 capital letters change, every other byte stays.\<close>

definition tolower :: "char \<Rightarrow> char" where
  "tolower c =
     (case map_of (zip ''ABCDEFGHIJKLMNOPQRSTUVWXYZ'' ''abcdefghijklmnopqrstuvwxyz'') c of
        Some l \<Rightarrow> l
      | None \<Rightarrow> c)"

text \<open>\<^verbatim>\<open>std::isspace\<close> in the "C" locale: space, tab, newline, vertical tab, form
  feed and carriage return.\<close>

definition isspace :: "char \<Rightarrow> bool" where
  "isspace c = (c \<in> {CHR '' '', CHR 0x09, CHR 0x0A, CHR 0x0B, CHR 0x0C, CHR 0x0D})"

definition isdigit :: "char \<Rightarrow> bool" where
  "isdigit c = (c \<in> set ''0123456789'')"

definition digit_value :: "char \<Rightarrow> int" where
  "digit_value c =
     (case map_of (zip ''0123456789'' [0, 1, 2, 3, 4, 5, 6, 7, 8, 9]) c of
        Some d \<Rightarrow> d
      | None \<Rightarrow> 0)"

definition digits_value :: "string \<Rightarrow> int" where
  "digits_value ds = foldl (\<lambda>acc c. 10 * acc + digit_value c) 0 ds"

text \<open>\<^verbatim>\<open>std::stoi(s)\<close>, base 10, with a 32-bit \<^verbatim>\<open>int\<close>: leading white space is
  skipped, a sign is optional, the longest run of digits is read and whatever follows
  it is ignored. No digit at all throws \<^verbatim>\<open>std::invalid_argument\<close>; a value outside
  the range of \<^verbatim>\<open>int\<close> throws \<^verbatim>\<open>std::out_of_range\<close>.\<close>

datatype stoi_result = StoiValue int | StoiInvalidArgument | StoiOutOfRange

definition stoi :: "string \<Rightarrow> stoi_result" where
  "stoi s =
     (let s1 = dropWhile isspace s;
          neg = (case s1 of c # _ \<Rightarrow> c = CHR ''-'' | [] \<Rightarrow> False);
          s2 = (case s1 of c # r \<Rightarrow> if c = CHR ''-'' \<or> c = CHR ''+'' then r else s1 | [] \<Rightarrow> s1);
          ds = takeWhile isdigit s2;
          v = (if neg then - digits_value ds else digits_value ds)
      in if ds = [] then StoiInvalidArgument
         else if v < - (2 ^ 31) \<or> 2 ^ 31 \<le> v then StoiOutOfRange
         else StoiValue v)"

text \<open>\<^verbatim>\<open>std::stod(s)\<close> gives a \<^verbatim>\<open>double\<close>, throws \<^verbatim>\<open>std::invalid_argument\<close> or
  throws \<^verbatim>\<open>std::out_of_range\<close>. The loaders only store and copy the number, so the type
  of a \<^verbatim>\<open>double\<close> is a type parameter \<open>'d\<close> (with a \<open>0\<close> for the default member
  initialiser \<^verbatim>\<open>0.0\<close>) and the conversion is a parameter \<open>stod\<close> of every function that
  calls it.\<close>

datatype 'd stod_result = StodValue 'd | StodInvalidArgument | StodOutOfRange

text \<open>\<^verbatim>\<open>std::getline(archivo, linea)\<close> on a stream with the bytes \<open>archivo\<close> left:
  at the end of the file it fails; otherwise the line is what stands before the next
  newline, which is read too and dropped, or everything that is left.\<close>

definition getline :: "string \<Rightarrow> (string \<times> string) option" where
  "getline archivo =
     (if archivo = [] then None
      else Some (takeWhile (\<lambda>c. c \<noteq> CHR 0x0A) archivo,
                 drop 1 (dropWhile (\<lambda>c. c \<noteq> CHR 0x0A) archivo)))"

lemma getline_shorter:
  "getline archivo = Some (linea, resto) \<Longrightarrow> length resto < length archivo"
  using length_dropWhile_le [of "\<lambda>c. c \<noteq> CHR 0x0A" archivo]
  by (cases archivo) (auto simp: getline_def)

subsection \<open>Data structures (sbr.cpp, lines 13 to 49)\<close>

record 'd Hecho =
  nombre :: string
  factorCerteza :: 'd

datatype OperadorLogico = NINGUNO | Y | O'

record 'd Antecedente =
  condiciones :: "'d Hecho list"
  operador :: OperadorLogico

record 'd Regla =
  id' :: string
  antecedente :: "'d Antecedente"
  consecuente :: "'d Hecho"
  factorCertezaRegla :: 'd

record 'd BaseConocimiento =
  reglas :: "'d Regla list"

record 'd BaseHechos =
  hechos_iniciales :: "'d Hecho list"
  objetivo :: "'d Hecho"
  fc_memoria :: "string \<rightharpoonup> 'd"

text \<open>The default-constructed values: \<^verbatim>\<open>Hecho h;\<close>, the \<^verbatim>\<open>antecedente\<close> of a fresh
  \<^verbatim>\<open>Regla r;\<close>, and the \<^verbatim>\<open>BaseConocimiento bc; BaseHechos bh;\<close> of \<^verbatim>\<open>main\<close>.\<close>

definition Hecho_nuevo :: "('d::zero) Hecho" where
  "Hecho_nuevo = \<lparr>nombre = [], factorCerteza = 0\<rparr>"

definition Antecedente_nuevo :: "('d::zero) Antecedente" where
  "Antecedente_nuevo = \<lparr>condiciones = [], operador = NINGUNO\<rparr>"

definition bc_vacia :: "('d::zero) BaseConocimiento" where
  "bc_vacia = \<lparr>reglas = []\<rparr>"

definition bh_vacia :: "('d::zero) BaseHechos" where
  "bh_vacia = \<lparr>hechos_iniciales = [], objetivo = Hecho_nuevo, fc_memoria = Map.empty\<rparr>"

subsection \<open>Errors and diagnostics\<close>

text \<open>
  One constructor for each kind of message that precedes a \<^verbatim>\<open>return false\<close>:
  \<^item> \<open>OpenFailed\<close>: "Error al abrir el archivo" (lines 123, 245);
  \<^item> \<open>EmptyFile\<close>: "Archivo ... vac\'io o formato incorrecto en la primera l\'inea"
    (lines 139, 261);
  \<^item> \<open>InvalidCount\<close>: "N\'umero de reglas/hechos inv\'alido" (lines 135, 257);
  \<^item> \<open>UnexpectedEOF\<close>: "Fin de archivo inesperado" (lines 145, 267) and
    "Palabra clave 'Objetivo' no encontrada" (line 339);
  \<^item> \<open>MissingDelimiter\<close>: "falta ':'" (line 160), "falta ',' antes de 'FC='"
    (line 179), "falta ','" (line 283);
  \<^item> \<open>MissingFCMarker\<close>: "falta 'FC='" in a rule (line 172);
  \<^item> \<open>InvalidNumber\<close>: "Factor de certeza ... inv\'alido" (lines 187, 301);
  \<^item> \<open>MissingKeyword\<close>: "falta 'Si' o no est\'a al inicio" (line 200), "falta
    'Entonces'" (line 206), "falta 'FC=' o no est\'a en la posici\'on correcta" in a fact
    (line 293), "Se esperaba la palabra clave 'Objetivo'" (line 324);
  \<^item> \<open>EmptyClause\<close>: "Antecedente vac\'io" (line 214), "Consecuente vac\'io" (line 218),
    "Hecho objetivo no especificado" (lines 331, 343);
  \<^item> \<open>EmptyLiteral\<close>: "Literal vac\'io encontrado en antecedente" (line 110);
  \<^item> \<open>EmptyAntecedent\<close>: \<^verbatim>\<open>parsearAntecedente\<close> returns false at line 114 with no
    message of its own.
\<close>

datatype load_error =
    OpenFailed | EmptyFile | InvalidCount | UnexpectedEOF | MissingDelimiter
  | MissingFCMarker | InvalidNumber | MissingKeyword | EmptyClause | EmptyLiteral
  | EmptyAntecedent

text \<open>How a loader ends: \<^verbatim>\<open>return true\<close>, \<^verbatim>\<open>return false\<close> after a message, or a
  \<^verbatim>\<open>std::out_of_range\<close> that leaves it (the handlers catch
  \<^verbatim>\<open>std::invalid_argument\<close> only).\<close>

datatype outcome = Loaded | Failed load_error | Uncaught_out_of_range

text \<open>The warning of lines 235 and 310, with the two numbers it prints.\<close>

datatype diagnostic = CountMismatch int nat

text \<open>The body of a loop for one data line: the parsed entry, a \<^verbatim>\<open>return false\<close>,
  or the exception of \<^verbatim>\<open>std::stod\<close>.\<close>

datatype 'a line_result = Line_ok 'a | Line_error load_error | Line_out_of_range

subsection \<open>Text helpers (lines 54 to 68)\<close>

text \<open>The constant \<^verbatim>\<open>whitespace\<close> of line 62: \<^verbatim>\<open>" \t\n\r\f\v"\<close>.\<close>

definition whitespace :: string where
  "whitespace = [CHR '' '', CHR 0x09, CHR 0x0A, CHR 0x0D, CHR 0x0C, CHR 0x0B]"

definition toLower :: "string \<Rightarrow> string" where
  "toLower s = map tolower s"

definition find_first_not_of :: "string \<Rightarrow> string \<Rightarrow> nat option" where
  "find_first_not_of str chars =
     List.find (\<lambda>i. str ! i \<notin> set chars) [0 ..< length str]"

definition find_last_not_of :: "string \<Rightarrow> string \<Rightarrow> nat option" where
  "find_last_not_of str chars =
     List.find (\<lambda>i. str ! i \<notin> set chars) (rev [0 ..< length str])"

definition trim :: "string \<Rightarrow> string" where
  "trim str =
     (case find_first_not_of str whitespace of
        None \<Rightarrow> []
      | Some start \<Rightarrow>
          (case find_last_not_of str whitespace of
             None \<Rightarrow> []
           | Some end' \<Rightarrow> substr str start (end' - start + 1)))"

subsection \<open>parsearAntecedente (lines 71 to 115)\<close>

definition op_delim :: "char \<Rightarrow> string" where
  "op_delim c = [CHR '' '', c, CHR '' '']"

definition opY :: string where
  "opY = op_delim CHR ''y''"

definition opO :: string where
  "opO = op_delim CHR ''o''"

text \<open>The two \<^verbatim>\<open>while\<close> loops (lines 83 to 87 and 92 to 96) are the same loop, on
  \<^verbatim>\<open>opY\<close> and on \<^verbatim>\<open>opO\<close>; \<open>c\<close> is the letter of the delimiter. The state is
  \<^verbatim>\<open>start\<close>, the position \<^verbatim>\<open>posY\<close> (or \<^verbatim>\<open>posO\<close>) and \<^verbatim>\<open>literalesStr\<close>.\<close>

function split_while ::
  "char \<Rightarrow> string \<Rightarrow> string \<Rightarrow> nat \<Rightarrow> nat option \<Rightarrow> string list \<Rightarrow> nat \<times> string list"
where
  "split_while c alfaStr alfaLower start pos literalesStr =
     (case pos of
        None \<Rightarrow> (start, literalesStr)
      | Some p \<Rightarrow>
          split_while c alfaStr alfaLower
            (p + length (op_delim c))
            (str_find alfaLower (op_delim c) (p + length (op_delim c)))
            (literalesStr @ [trim (substr alfaStr start (p - start))]))"
  by pat_completeness auto

termination split_while
proof (relation "measure (\<lambda>(c, alfaStr, alfaLower, start, pos, lits).
          case pos of None \<Rightarrow> 0 | Some p \<Rightarrow> Suc (length alfaLower - p))")
  show "wf (measure (\<lambda>(c :: char, alfaStr :: string, alfaLower :: string, start :: nat,
          pos :: nat option, lits :: string list).
          case pos of None \<Rightarrow> 0 | Some p \<Rightarrow> Suc (length alfaLower - p)))"
    by simp
next
  fix c :: char and alfaStr alfaLower :: string and start :: nat and pos :: "nat option"
    and literalesStr :: "string list" and p :: nat
  assume "pos = Some p"
  show "((c, alfaStr, alfaLower, p + length (op_delim c),
          str_find alfaLower (op_delim c) (p + length (op_delim c)),
          literalesStr @ [trim (substr alfaStr start (p - start))]),
         (c, alfaStr, alfaLower, start, pos, literalesStr))
        \<in> measure (\<lambda>(c, alfaStr, alfaLower, start, pos, lits).
             case pos of None \<Rightarrow> 0 | Some p \<Rightarrow> Suc (length alfaLower - p))"
  proof (cases "str_find alfaLower (op_delim c) (p + length (op_delim c))")
    case None
    with \<open>pos = Some p\<close> show ?thesis by simp
  next
    case (Some q)
    from Some obtain i where "i < length [p + length (op_delim c) ..< Suc (length alfaLower)]"
      and "q = [p + length (op_delim c) ..< Suc (length alfaLower)] ! i"
      and "occurs_at alfaLower (op_delim c) q"
      unfolding str_find_def find_Some_iff by blast
    then have "q = p + length (op_delim c) + i" and "occurs_at alfaLower (op_delim c) q"
      by (simp_all del: upt_Suc)
    then have "p + 3 \<le> q" and "q + 3 \<le> length alfaLower"
      by (simp_all add: op_delim_def occurs_at_def)
    with Some \<open>pos = Some p\<close> show ?thesis by simp
  qed
qed

text \<open>The \<^verbatim>\<open>for\<close> loop of lines 103 to 113 and the \<^verbatim>\<open>return\<close> of line 114.\<close>

fun push_literales ::
  "string list \<Rightarrow> ('d::zero) Antecedente \<Rightarrow> load_error option \<times> 'd Antecedente"
where
  "push_literales [] ant =
     (if condiciones ant = [] then Some EmptyAntecedent else None, ant)"
| "push_literales (litStr # rest) ant =
     (if litStr \<noteq> []
      then push_literales rest
             (ant\<lparr>condiciones :=
                condiciones ant @ [Hecho_nuevo\<lparr>nombre := litStr\<rparr>]\<rparr>)
      else (Some EmptyLiteral, ant))"

text \<open>The literals of lines 80 to 101, with the operator chosen.\<close>

definition literales :: "string \<Rightarrow> OperadorLogico \<times> string list" where
  "literales alfaStr =
     (let alfaLower = toLower alfaStr;
          posY = str_find alfaLower opY 0;
          posO = str_find alfaLower opO 0
      in if posY \<noteq> None \<and> (posO = None \<or> the posY < the posO)
         then (let (start, lits) = split_while CHR ''y'' alfaStr alfaLower 0 posY []
               in (Y, lits @ [trim (substr_from alfaStr start)]))
         else if posO \<noteq> None
         then (let (start, lits) = split_while CHR ''o'' alfaStr alfaLower 0 posO []
               in (O', lits @ [trim (substr_from alfaStr start)]))
         else (NINGUNO, [trim alfaStr]))"

text \<open>\<^verbatim>\<open>parsearAntecedente(alfaStr, antecedente)\<close>: \<open>None\<close> is \<^verbatim>\<open>return true\<close>. The
  antecedent is passed by reference, so the result has it as the call leaves it.\<close>

definition parsearAntecedente ::
  "string \<Rightarrow> ('d::zero) Antecedente \<Rightarrow> load_error option \<times> 'd Antecedente"
where
  "parsearAntecedente alfaStr ant =
     (let (op, literalesStr) = literales alfaStr
      in push_literales literalesStr (ant\<lparr>operador := op\<rparr>))"

subsection \<open>cargarReglas (lines 120 to 240)\<close>

text \<open>Lines 183 to 231 of the loop body: from the text after \<^verbatim>\<open>fc=\<close> and the text
  before the comma to the rule \<^verbatim>\<open>r\<close> that line 232 appends.\<close>

definition regla_de_partes ::
  "(string \<Rightarrow> ('d::zero) stod_result) \<Rightarrow> string \<Rightarrow> string \<Rightarrow> string \<Rightarrow> 'd Regla line_result"
where
  "regla_de_partes stod r_id fcValorStr reglaSiEntonces =
     (case stod fcValorStr of
        StodInvalidArgument \<Rightarrow> Line_error InvalidNumber
      | StodOutOfRange \<Rightarrow> Line_out_of_range
      | StodValue fc \<Rightarrow>
          (let reglaSiEntoncesLower = toLower reglaSiEntonces;
               siMarker = ''si '';
               entoncesMarker = '' entonces '';
               posSi = str_find reglaSiEntoncesLower siMarker 0
           in if posSi \<noteq> Some 0 then Line_error MissingKeyword
              else
                (case str_find reglaSiEntoncesLower entoncesMarker (0 + length siMarker) of
                   None \<Rightarrow> Line_error MissingKeyword
                 | Some posEntonces \<Rightarrow>
                     (let alfaStr = trim (substr reglaSiEntonces (0 + length siMarker)
                                            (posEntonces - (0 + length siMarker)));
                          betaStr = trim (substr_from reglaSiEntonces
                                            (posEntonces + length entoncesMarker))
                      in if alfaStr = [] then Line_error EmptyClause
                         else if betaStr = [] then Line_error EmptyClause
                         else
                           (case parsearAntecedente alfaStr Antecedente_nuevo of
                              (Some e, ant) \<Rightarrow> Line_error e
                            | (None, ant) \<Rightarrow>
                                Line_ok \<lparr>id' = r_id, antecedente = ant,
                                         consecuente = Hecho_nuevo\<lparr>nombre := trim betaStr\<rparr>,
                                         factorCertezaRegla = fc\<rparr>)))))"

text \<open>Lines 155 to 231: the loop body on a line that is trimmed and not empty.\<close>

definition parsear_regla ::
  "(string \<Rightarrow> ('d::zero) stod_result) \<Rightarrow> string \<Rightarrow> 'd Regla line_result"
where
  "parsear_regla stod linea =
     (case str_find linea [CHR '':''] 0 of
        None \<Rightarrow> Line_error MissingDelimiter
      | Some posColon \<Rightarrow>
          (let r_id = trim (substr linea 0 posColon);
               defReglaCompleta = trim (substr_from linea (posColon + 1));
               fcMarkerLower = ''fc='';
               defReglaLower = toLower defReglaCompleta
           in case str_rfind defReglaLower fcMarkerLower of
                None \<Rightarrow> Line_error MissingFCMarker
              | Some posFc \<Rightarrow>
                  (case str_rfind_from defReglaCompleta [CHR '',''] posFc of
                     None \<Rightarrow> Line_error MissingDelimiter
                   | Some posComaAntesFc \<Rightarrow>
                       regla_de_partes stod r_id
                         (trim (substr_from defReglaCompleta (posFc + length fcMarkerLower)))
                         (trim (substr defReglaCompleta 0 posComaAntesFc)))))"

text \<open>The \<^verbatim>\<open>for\<close> loop of lines 143 to 233. \<open>n\<close> is \<^verbatim>\<open>numReglasEsperadas\<close>. On an
  empty line \<^verbatim>\<open>i--; continue;\<close> and the \<^verbatim>\<open>++i\<close> of the loop leave \<^verbatim>\<open>i\<close> as it
  was. The result has the stream and the knowledge base as the loop leaves them.\<close>

function reglas_loop ::
  "(string \<Rightarrow> ('d::zero) stod_result) \<Rightarrow> int \<Rightarrow> int \<Rightarrow> string \<Rightarrow> 'd BaseConocimiento
     \<Rightarrow> outcome \<times> string \<times> 'd BaseConocimiento"
where
  "reglas_loop stod n i archivo bc =
     (if i < n then
        (case getline archivo of
           None \<Rightarrow> (Failed UnexpectedEOF, archivo, bc)
         | Some (linea0, archivo') \<Rightarrow>
             (let linea = trim linea0
              in if linea = [] then reglas_loop stod n (i - 1 + 1) archivo' bc
                 else
                   (case parsear_regla stod linea of
                      Line_error e \<Rightarrow> (Failed e, archivo', bc)
                    | Line_out_of_range \<Rightarrow> (Uncaught_out_of_range, archivo', bc)
                    | Line_ok r \<Rightarrow>
                        reglas_loop stod n (i + 1) archivo'
                          (bc\<lparr>reglas := reglas bc @ [r]\<rparr>))))
      else (Loaded, archivo, bc))"
  by pat_completeness auto
termination
  by (relation "measure (\<lambda>(stod, n, i, archivo, bc). length archivo)")
     (auto dest: getline_shorter)

text \<open>The comparison \<^verbatim>\<open>size() != numEsperadas\<close> of lines 234 and 309 is between a
  \<^verbatim>\<open>size_t\<close> and an \<^verbatim>\<open>int\<close>: both sides become 64-bit unsigned numbers.\<close>

definition count_differs :: "nat \<Rightarrow> int \<Rightarrow> bool" where
  "count_differs sz n = ((word_of_nat sz :: 64 word) \<noteq> word_of_int n)"

text \<open>\<^verbatim>\<open>cargarReglas(nombreArchivo, bc)\<close>. The argument \<open>archivo\<close> is the file as the
  \<^verbatim>\<open>std::ifstream\<close> finds it: \<open>None\<close> when it cannot be opened, its bytes otherwise.
  The result has the knowledge base as the call leaves it and the warnings written.\<close>

definition cargarReglas ::
  "(string \<Rightarrow> ('d::zero) stod_result) \<Rightarrow> string option \<Rightarrow> 'd BaseConocimiento
     \<Rightarrow> outcome \<times> 'd BaseConocimiento \<times> diagnostic list"
where
  "cargarReglas stod archivo bc =
     (case archivo of
        None \<Rightarrow> (Failed OpenFailed, bc, [])
      | Some contenido \<Rightarrow>
          (case getline contenido of
             None \<Rightarrow> (Failed EmptyFile, bc, [])
           | Some (linea, resto) \<Rightarrow>
               (case stoi (trim linea) of
                  StoiInvalidArgument \<Rightarrow> (Failed InvalidCount, bc, [])
                | StoiOutOfRange \<Rightarrow> (Uncaught_out_of_range, bc, [])
                | StoiValue numReglasEsperadas \<Rightarrow>
                    (case reglas_loop stod numReglasEsperadas 0 resto bc of
                       (Loaded, resto', bc') \<Rightarrow>
                         (Loaded, bc',
                          if count_differs (length (reglas bc')) numReglasEsperadas
                          then [CountMismatch numReglasEsperadas (length (reglas bc'))]
                          else [])
                     | (salida, resto', bc') \<Rightarrow> (salida, bc', [])))))"

subsection \<open>cargarHechos (lines 242 to 348)\<close>

text \<open>Lines 276 to 303: the loop body on a line that is trimmed and not empty.\<close>

definition parsear_hecho ::
  "(string \<Rightarrow> ('d::zero) stod_result) \<Rightarrow> string \<Rightarrow> 'd Hecho line_result"
where
  "parsear_hecho stod linea =
     (let fcMarkerLower = ''fc=''
      in case str_rfind linea [CHR '',''] of
           None \<Rightarrow> Line_error MissingDelimiter
         | Some posComa \<Rightarrow>
             (let h_nombre = trim (substr linea 0 posComa);
                  fcParte = trim (substr_from linea (posComa + 1));
                  fcParteLower = toLower fcParte;
                  posFc = str_find fcParteLower fcMarkerLower 0
              in if posFc \<noteq> Some 0 then Line_error MissingKeyword
                 else
                   (case stod (trim (substr_from fcParte (0 + length fcMarkerLower))) of
                      StodInvalidArgument \<Rightarrow> Line_error InvalidNumber
                    | StodOutOfRange \<Rightarrow> Line_out_of_range
                    | StodValue fc \<Rightarrow> Line_ok \<lparr>nombre = h_nombre, factorCerteza = fc\<rparr>)))"

text \<open>The \<^verbatim>\<open>for\<close> loop of lines 265 to 307.\<close>

function hechos_loop ::
  "(string \<Rightarrow> ('d::zero) stod_result) \<Rightarrow> int \<Rightarrow> int \<Rightarrow> string \<Rightarrow> 'd BaseHechos
     \<Rightarrow> outcome \<times> string \<times> 'd BaseHechos"
where
  "hechos_loop stod n i archivo bh =
     (if i < n then
        (case getline archivo of
           None \<Rightarrow> (Failed UnexpectedEOF, archivo, bh)
         | Some (linea0, archivo') \<Rightarrow>
             (let linea = trim linea0
              in if linea = [] then hechos_loop stod n (i - 1 + 1) archivo' bh
                 else
                   (case parsear_hecho stod linea of
                      Line_error e \<Rightarrow> (Failed e, archivo', bh)
                    | Line_out_of_range \<Rightarrow> (Uncaught_out_of_range, archivo', bh)
                    | Line_ok h \<Rightarrow>
                        hechos_loop stod n (i + 1) archivo'
                          (bh\<lparr>hechos_iniciales := hechos_iniciales bh @ [h],
                              fc_memoria := (fc_memoria bh)(nombre h \<mapsto> factorCerteza h)\<rparr>))))
      else (Loaded, archivo, bh))"
  by pat_completeness auto
termination
  by (relation "measure (\<lambda>(stod, n, i, archivo, bh). length archivo)")
     (auto dest: getline_shorter)

text \<open>The \<^verbatim>\<open>while\<close> loop of lines 316 to 336. \<open>leido\<close> is
  \<^verbatim>\<open>leidoKeywordObjetivo\<close>. The first component is \<open>Some\<close> when the loop returns from
  the function and \<open>None\<close> when \<^verbatim>\<open>std::getline\<close> ends it.\<close>

function objetivo_loop ::
  "bool \<Rightarrow> string \<Rightarrow> 'd BaseHechos \<Rightarrow> outcome option \<times> bool \<times> 'd BaseHechos"
where
  "objetivo_loop leido archivo bh =
     (case getline archivo of
        None \<Rightarrow> (None, leido, bh)
      | Some (linea0, archivo') \<Rightarrow>
          (let linea = trim linea0
           in if linea = [] then objetivo_loop leido archivo' bh
              else if \<not> leido then
                (if toLower linea = ''objetivo'' then objetivo_loop True archivo' bh
                 else (Some (Failed MissingKeyword), leido, bh))
              else
                (let bh' = bh\<lparr>objetivo := (objetivo bh)\<lparr>nombre := trim linea\<rparr>\<rparr>
                 in if nombre (objetivo bh') = [] then (Some (Failed EmptyClause), leido, bh')
                    else (Some Loaded, leido, bh'))))"
  by pat_completeness auto
termination
  by (relation "measure (\<lambda>(leido, archivo, bh). length archivo)")
     (auto dest: getline_shorter)

text \<open>Lines 314 to 347: the loop and the checks after it.\<close>

definition leer_objetivo :: "string \<Rightarrow> 'd BaseHechos \<Rightarrow> outcome \<times> 'd BaseHechos" where
  "leer_objetivo archivo bh =
     (case objetivo_loop False archivo bh of
        (Some salida, leido, bh') \<Rightarrow> (salida, bh')
      | (None, leido, bh') \<Rightarrow>
          if \<not> leido then (Failed UnexpectedEOF, bh')
          else if nombre (objetivo bh') = [] then (Failed EmptyClause, bh')
          else (Loaded, bh'))"

text \<open>\<^verbatim>\<open>cargarHechos(nombreArchivo, bh)\<close>, with \<open>archivo\<close> as in \<open>cargarReglas\<close>.\<close>

definition cargarHechos ::
  "(string \<Rightarrow> ('d::zero) stod_result) \<Rightarrow> string option \<Rightarrow> 'd BaseHechos
     \<Rightarrow> outcome \<times> 'd BaseHechos \<times> diagnostic list"
where
  "cargarHechos stod archivo bh =
     (case archivo of
        None \<Rightarrow> (Failed OpenFailed, bh, [])
      | Some contenido \<Rightarrow>
          (case getline contenido of
             None \<Rightarrow> (Failed EmptyFile, bh, [])
           | Some (linea, resto) \<Rightarrow>
               (case stoi (trim linea) of
                  StoiInvalidArgument \<Rightarrow> (Failed InvalidCount, bh, [])
                | StoiOutOfRange \<Rightarrow> (Uncaught_out_of_range, bh, [])
                | StoiValue numHechosEsperados \<Rightarrow>
                    (case hechos_loop stod numHechosEsperados 0 resto bh of
                       (Loaded, resto', bh') \<Rightarrow>
                         (let avisos =
                                (if count_differs (length (hechos_iniciales bh'))
                                      numHechosEsperados
                                 then [CountMismatch numHechosEsperados
                                         (length (hechos_iniciales bh'))]
                                 else [])
                          in case leer_objetivo resto' bh' of
                               (salida, bh'') \<Rightarrow> (salida, bh'', avisos))
                     | (salida, resto', bh') \<Rightarrow> (salida, bh', [])))))"

section \<open>Notions used to state the properties\<close>

subsection \<open>Text without the white space around it\<close>

text \<open>A text with its leading and its trailing white space removed, and nothing else
  changed.\<close>

definition strip :: "string \<Rightarrow> string" where
  "strip s = rev (dropWhile isspace (rev (dropWhile isspace s)))"

subsection \<open>The lines of a file\<close>

text \<open>All the lines that \<^verbatim>\<open>std::getline\<close> reads from a stream, in order.\<close>

function lineas :: "string \<Rightarrow> string list" where
  "lineas archivo =
     (case getline archivo of
        None \<Rightarrow> []
      | Some (linea, resto) \<Rightarrow> linea # lineas resto)"
  by pat_completeness auto
termination
  by (relation "measure length") (auto dest: getline_shorter)

text \<open>The next line that is not blank, trimmed, and the stream after it.\<close>

function siguiente_no_vacia :: "string \<Rightarrow> (string \<times> string) option" where
  "siguiente_no_vacia archivo =
     (case getline archivo of
        None \<Rightarrow> None
      | Some (linea, resto) \<Rightarrow>
          if strip linea = [] then siguiente_no_vacia resto else Some (strip linea, resto))"
  by pat_completeness auto
termination
  by (relation "measure length") (auto dest: getline_shorter)

text \<open>The entries that a list of data lines stands for: a blank line stands for
  nothing, any other line for what the loop body makes of it.\<close>

definition reglas_de ::
  "(string \<Rightarrow> ('d::zero) stod_result) \<Rightarrow> string list \<Rightarrow> 'd Regla list"
where
  "reglas_de stod ls =
     concat (map (\<lambda>l. if strip l = [] then []
                       else (case parsear_regla stod (strip l) of
                               Line_ok r \<Rightarrow> [r]
                             | _ \<Rightarrow> [])) ls)"

definition hechos_de ::
  "(string \<Rightarrow> ('d::zero) stod_result) \<Rightarrow> string list \<Rightarrow> 'd Hecho list"
where
  "hechos_de stod ls =
     concat (map (\<lambda>l. if strip l = [] then []
                       else (case parsear_hecho stod (strip l) of
                               Line_ok h \<Rightarrow> [h]
                             | _ \<Rightarrow> [])) ls)"

text \<open>A data line the loop accepts: blank, or parsed to an entry.\<close>

definition linea_regla_ok :: "(string \<Rightarrow> ('d::zero) stod_result) \<Rightarrow> string \<Rightarrow> bool" where
  "linea_regla_ok stod l =
     (strip l = [] \<or> (case parsear_regla stod (strip l) of Line_ok r \<Rightarrow> True | _ \<Rightarrow> False))"

definition linea_hecho_ok :: "(string \<Rightarrow> ('d::zero) stod_result) \<Rightarrow> string \<Rightarrow> bool" where
  "linea_hecho_ok stod l =
     (strip l = [] \<or> (case parsear_hecho stod (strip l) of Line_ok h \<Rightarrow> True | _ \<Rightarrow> False))"

text \<open>The working memory that a list of facts seeds, written in order.\<close>

definition memoria_de :: "'d Hecho list \<Rightarrow> (string \<rightharpoonup> 'd)" where
  "memoria_de hs = map_of (rev (map (\<lambda>h. (nombre h, factorCerteza h)) hs))"

subsection \<open>Positions in a text\<close>

text \<open>\<open>k\<close> is the position of the first, or of the last, character \<open>c\<close> of \<open>s\<close>.\<close>

definition first_char_at :: "char \<Rightarrow> string \<Rightarrow> nat \<Rightarrow> bool" where
  "first_char_at c s k = (k < length s \<and> s ! k = c \<and> c \<notin> set (take k s))"

definition last_char_at :: "char \<Rightarrow> string \<Rightarrow> nat \<Rightarrow> bool" where
  "last_char_at c s k = (k < length s \<and> s ! k = c \<and> c \<notin> set (drop (Suc k) s))"

text \<open>\<open>k\<close> is the position of the last character \<open>c\<close> of \<open>s\<close> at or before position
  \<open>p\<close>.\<close>

definition last_char_upto :: "char \<Rightarrow> string \<Rightarrow> nat \<Rightarrow> nat \<Rightarrow> bool" where
  "last_char_upto c s p k =
     (k \<le> p \<and> k < length s \<and> s ! k = c \<and> c \<notin> set (take (p - k) (drop (Suc k) s)))"

text \<open>The text \<open>pat\<close> stands in \<open>s\<close> at \<open>p\<close> and nowhere after \<open>p\<close>; it stands nowhere
  in \<open>s\<close>.\<close>

definition last_occurrence :: "string \<Rightarrow> string \<Rightarrow> nat \<Rightarrow> bool" where
  "last_occurrence pat s p =
     (occurs_at s pat p \<and> (\<forall>q\<in>set [Suc p ..< Suc (length s)]. \<not> occurs_at s pat q))"

definition no_occurrence :: "string \<Rightarrow> string \<Rightarrow> bool" where
  "no_occurrence pat s = (\<forall>q\<in>set [0 ..< Suc (length s)]. \<not> occurs_at s pat q)"

subsection \<open>Integers in the count line\<close>

text \<open>A string that is an integer and nothing else: an optional sign and one or more
  decimal digits.\<close>

definition is_integer :: "string \<Rightarrow> bool" where
  "is_integer s =
     (case s of
        [] \<Rightarrow> False
      | c # r \<Rightarrow>
          if c = CHR ''-'' \<or> c = CHR ''+'' then r \<noteq> [] \<and> list_all isdigit r
          else list_all isdigit s)"

text \<open>A string that starts with an integer: an optional sign and then a decimal
  digit.\<close>

definition starts_with_integer :: "string \<Rightarrow> bool" where
  "starts_with_integer s =
     (case s of
        [] \<Rightarrow> False
      | c # r \<Rightarrow>
          if c = CHR ''-'' \<or> c = CHR ''+'' then (case r of [] \<Rightarrow> False | d # _ \<Rightarrow> isdigit d)
          else isdigit c)"

subsection \<open>Splitting an antecedent, as the specification words it\<close>

text \<open>The first position where \<open>pat\<close> stands in a text, by recursion on the text.\<close>

fun first_pos :: "string \<Rightarrow> string \<Rightarrow> nat option" where
  "first_pos pat [] = (if pat = [] then Some 0 else None)"
| "first_pos pat (c # cs) =
     (if take (length pat) (c # cs) = pat then Some 0
      else map_option Suc (first_pos pat cs))"

text \<open>The text cut at every place where the delimiter \<open>d\<close> stands in the case-folded
  text, from left to right: \<open>piece\<close> is the piece read so far, and the search goes on
  after each delimiter found.\<close>

function split_ci :: "string \<Rightarrow> string \<Rightarrow> string \<Rightarrow> string list" where
  "split_ci d piece [] = [piece]"
| "split_ci d piece (c # cs) =
     (if d \<noteq> [] \<and> take (length d) (map tolower (c # cs)) = d
      then piece # split_ci d [] (drop (length d) (c # cs))
      else split_ci d (piece @ [c]) cs)"
  by pat_completeness auto
termination
  by (relation "measure (\<lambda>(d, piece, s). length s)") auto

text \<open>The operator and the literals of an antecedent text, in the words of the
  specification: AND when \<^verbatim>\<open>" y "\<close> stands in the case-folded text and \<^verbatim>\<open>" o "\<close>
  does not or stands later; else OR when \<^verbatim>\<open>" o "\<close> stands there; else NONE.\<close>

definition spec_literals :: "string \<Rightarrow> OperadorLogico \<times> string list" where
  "spec_literals text =
     (case (first_pos '' y '' (map tolower text), first_pos '' o '' (map tolower text)) of
        (Some py, None) \<Rightarrow> (Y, map strip (split_ci '' y '' [] text))
      | (Some py, Some po) \<Rightarrow>
          if py < po then (Y, map strip (split_ci '' y '' [] text))
          else (O', map strip (split_ci '' o '' [] text))
      | (None, Some po) \<Rightarrow> (O', map strip (split_ci '' o '' [] text))
      | (None, None) \<Rightarrow> (NINGUNO, [strip text]))"

subsection \<open>The file of the program's own run\<close>

text \<open>The file \<^verbatim>\<open>Prueba-1.reglas\<close> that \<^verbatim>\<open>main\<close> writes (lines 394 to 398) and then
  loads (line 422).\<close>

definition prueba_1_reglas :: string where
  "prueba_1_reglas =
     ''4'' @ [CHR 0x0A] @
     ''R1: Si h2 o h3 Entonces h1, FC = 0.5'' @ [CHR 0x0A] @
     ''R2: Si h4 Entonces h1, FC = 1'' @ [CHR 0x0A] @
     ''R3: Si h5 y h6 Entonces h3, FC = 0.7'' @ [CHR 0x0A] @
     ''R4: Si h7 Entonces h3, FC = -0.5'' @ [CHR 0x0A]"

section \<open>Properties of the library functions and of the text helpers\<close>

lemma find_index_first:
  "List.find (\<lambda>i. Q (xs ! i)) [0 ..< length xs] =
     (if \<exists>x\<in>set xs. Q x then Some (length (takeWhile (Not \<circ> Q) xs)) else None)"
proof (cases "\<exists>x\<in>set xs. Q x")
  case False
  then show ?thesis by (auto simp: find_None_iff)
next
  case True
  let ?k = "length (takeWhile (Not \<circ> Q) xs)"
  from True have k: "?k < length xs"
    by (metis (mono_tags, lifting) comp_apply length_takeWhile_le le_neq_implies_less takeWhile_eq_all_conv takeWhile_eq_take take_all_iff)
  have "Q (xs ! ?k)" using nth_length_takeWhile [OF k] by simp
  moreover have "\<forall>j<?k. \<not> Q (xs ! j)"
    by (metis comp_apply nth_mem set_takeWhileD takeWhile_nth)
  ultimately show ?thesis using k True
    by (auto simp: find_Some_iff)
qed

lemma find_index_last:
  "List.find (\<lambda>i. Q (xs ! i)) (rev [0 ..< length xs]) =
     (if \<exists>x\<in>set xs. Q x
      then Some (length xs - 1 - length (takeWhile (Not \<circ> Q) (rev xs))) else None)"
proof (cases "\<exists>x\<in>set xs. Q x")
  case False
  then show ?thesis by (auto simp: find_None_iff)
next
  case True
  let ?n = "length xs"
  let ?t = "length (takeWhile (Not \<circ> Q) (rev xs))"
  from True have "\<exists>x\<in>set (rev xs). Q x" by simp
  then have t: "?t < length (rev xs)"
    by (metis (mono_tags, lifting) comp_apply length_takeWhile_le le_neq_implies_less takeWhile_eq_all_conv takeWhile_eq_take take_all_iff)
  have "Q (rev xs ! ?t)" using nth_length_takeWhile [OF t] by simp
  then have a: "Q (xs ! (?n - 1 - ?t))" using t by (simp add: rev_nth)
  have "\<forall>j<?t. \<not> Q (rev xs ! j)"
    by (metis comp_apply nth_mem set_takeWhileD takeWhile_nth)
  then have b: "\<forall>j<?t. \<not> Q (xs ! (?n - 1 - j))" using t by (simp add: rev_nth)
  have "?t < length (rev [0 ..< ?n]) \<and> Q (xs ! (rev [0 ..< ?n] ! ?t))
        \<and> ?n - 1 - ?t = rev [0 ..< ?n] ! ?t
        \<and> (\<forall>j<?t. \<not> Q (xs ! (rev [0 ..< ?n] ! j)))"
    using t a b by (simp add: rev_nth)
  then have "List.find (\<lambda>i. Q (xs ! i)) (rev [0 ..< ?n]) = Some (?n - 1 - ?t)"
    unfolding find_Some_iff by blast
  with True show ?thesis by simp
qed

lemma notin_whitespace: "(c \<notin> set whitespace) = (\<not> isspace c)"
  by (auto simp: isspace_def whitespace_def)

lemma find_first_not_of_whitespace:
  "find_first_not_of s whitespace =
     (if \<exists>x\<in>set s. \<not> isspace x then Some (length (takeWhile isspace s)) else None)"
proof -
  have "Not \<circ> (\<lambda>c. \<not> isspace c) = isspace" by (simp add: fun_eq_iff)
  then show ?thesis
    using find_index_first [of "\<lambda>c. \<not> isspace c" s]
    by (simp add: find_first_not_of_def notin_whitespace)
qed

lemma find_last_not_of_whitespace:
  "find_last_not_of s whitespace =
     (if \<exists>x\<in>set s. \<not> isspace x
      then Some (length s - 1 - length (takeWhile isspace (rev s))) else None)"
proof -
  have "Not \<circ> (\<lambda>c. \<not> isspace c) = isspace" by (simp add: fun_eq_iff)
  then show ?thesis
    using find_index_last [of "\<lambda>c. \<not> isspace c" s]
    by (simp add: find_last_not_of_def notin_whitespace)
qed

lemma trim_eq: "trim s = rev (dropWhile isspace (rev (dropWhile isspace s)))"
proof (cases "\<exists>x\<in>set s. \<not> isspace x")
  case False
  then show ?thesis
    by (auto simp: trim_def find_first_not_of_whitespace dest: set_dropWhileD)
next
  case True
  let ?n = "length s"
  let ?a = "length (takeWhile isspace s)"
  let ?t = "length (takeWhile isspace (rev s))"
  have tr: "trim s = take (?n - 1 - ?t - ?a + 1) (drop ?a s)"
    using True
    by (simp add: trim_def find_first_not_of_whitespace find_last_not_of_whitespace substr_def)
  have d: "dropWhile isspace s = drop ?a s" by (rule dropWhile_eq_drop)
  have ne: "dropWhile isspace s \<noteq> []" using True by auto
  have "rev s = rev (dropWhile isspace s) @ rev (takeWhile isspace s)"
    by (metis rev_append takeWhile_dropWhile_id)
  moreover have ex: "\<exists>x\<in>set (rev (dropWhile isspace s)). \<not> isspace x"
    using ne hd_dropWhile [OF ne] by (metis hd_in_set set_rev)
  ultimately have tw: "takeWhile isspace (rev s) = takeWhile isspace (rev (dropWhile isspace s))"
    by (metis takeWhile_append1)
  have lt: "?t < length (dropWhile isspace s)"
    by (metis append.right_neutral append_eq_append_conv ex
        le_neq_implies_less length_rev length_takeWhile_le
        takeWhile_dropWhile_id takeWhile_eq_all_conv tw)
  have "rev (dropWhile isspace (rev (dropWhile isspace s)))
        = take (length (dropWhile isspace s) - ?t) (dropWhile isspace s)"
    by (simp add: dropWhile_eq_drop drop_rev tw)
  also have "\<dots> = take (?n - 1 - ?t - ?a + 1) (drop ?a s)"
  proof -
    have len: "length (dropWhile isspace s) = ?n - ?a" by (subst d) simp
    have "length (dropWhile isspace s) - ?t = ?n - 1 - ?t - ?a + 1"
      using lt unfolding len by arith
    then show ?thesis using d by simp
  qed
  finally show ?thesis using tr by simp
qed


lemma trim_strip: "trim s = strip s"
  by (simp add: trim_eq strip_def)

lemma trim_Nil_iff: "trim s = [] \<longleftrightarrow> (\<forall>c\<in>set s. isspace c)"
proof
  assume "trim s = []"
  then have all: "\<forall>x\<in>set (dropWhile isspace s). isspace x"
    by (simp add: trim_eq)
  have "dropWhile isspace s = []"
  proof (rule ccontr)
    assume ne: "dropWhile isspace s \<noteq> []"
    then have "hd (dropWhile isspace s) \<in> set (dropWhile isspace s)" by simp
    with all hd_dropWhile [OF ne] show False by blast
  qed
  then show "\<forall>c\<in>set s. isspace c" by simp
next
  assume "\<forall>c\<in>set s. isspace c"
  then show "trim s = []" by (auto simp: trim_eq dest: set_dropWhileD)
qed

lemma trim_hd: "trim s \<noteq> [] \<Longrightarrow> \<not> isspace (hd (trim s))"
  by (metis (no_types, lifting) dropWhile_eq_Nil_conv dropWhile_last
    hd_dropWhile last_rev rev_rev_ident trim_Nil_iff trim_eq)

lemma trim_last: "trim s \<noteq> [] \<Longrightarrow> \<not> isspace (last (trim s))"
  by (metis hd_dropWhile hd_rev rev.simps(1) rev_rev_ident trim_eq)

lemma trim_fixed:
  "xs \<noteq> [] \<Longrightarrow> \<not> isspace (hd xs) \<Longrightarrow> \<not> isspace (last xs) \<Longrightarrow> trim xs = xs"
  by (metis hd_rev rev_swap self_append_conv2 takeWhile_dropWhile_id
    takeWhile_eq_Nil_iff trim_eq)

lemma trim_idem: "trim (trim s) = trim s"
  by (metis empty_iff empty_set trim_Nil_iff trim_fixed trim_hd trim_last)

lemma occurs_at_le: "occurs_at s pat q \<Longrightarrow> q \<le> length s"
  by (simp add: occurs_at_def)

lemma str_find_Some_iff:
  "str_find s pat pos = Some p \<longleftrightarrow>
     pos \<le> p \<and> occurs_at s pat p \<and> (\<forall>q. pos \<le> q \<and> q < p \<longrightarrow> \<not> occurs_at s pat q)"
proof
  assume "str_find s pat pos = Some p"
  then obtain i where i: "i < length [pos ..< Suc (length s)]"
    and P: "occurs_at s pat ([pos ..< Suc (length s)] ! i)"
    and p: "p = [pos ..< Suc (length s)] ! i"
    and N: "\<forall>j<i. \<not> occurs_at s pat ([pos ..< Suc (length s)] ! j)"
    unfolding str_find_def find_Some_iff by blast
  from i p have pi: "p = pos + i" by (simp del: upt_Suc)
  have "\<not> occurs_at s pat q" if "pos \<le> q \<and> q < p" for q
  proof -
    from that pi have "q - pos < i" by arith
    with N have "\<not> occurs_at s pat ([pos ..< Suc (length s)] ! (q - pos))" by blast
    moreover from that pi i have "pos + (q - pos) < Suc (length s)"
      by (simp del: upt_Suc) arith
    then have "[pos ..< Suc (length s)] ! (q - pos) = pos + (q - pos)"
      by (rule nth_upt)
    with that have "[pos ..< Suc (length s)] ! (q - pos) = q" by simp
    ultimately show ?thesis by simp
  qed
  with P p pi show "pos \<le> p \<and> occurs_at s pat p \<and>
      (\<forall>q. pos \<le> q \<and> q < p \<longrightarrow> \<not> occurs_at s pat q)"
    by simp
next
  assume A: "pos \<le> p \<and> occurs_at s pat p \<and>
      (\<forall>q. pos \<le> q \<and> q < p \<longrightarrow> \<not> occurs_at s pat q)"
  then have le: "p \<le> length s" by (blast dest: occurs_at_le)
  with A have i: "p - pos < length [pos ..< Suc (length s)]" by (simp del: upt_Suc) arith
  then have nth: "[pos ..< Suc (length s)] ! (p - pos) = p" using A by (simp del: upt_Suc)
  have "\<forall>j<p - pos. \<not> occurs_at s pat ([pos ..< Suc (length s)] ! j)"
  proof (intro allI impI)
    fix j assume j: "j < p - pos"
    with i have "[pos ..< Suc (length s)] ! j = pos + j" by (simp del: upt_Suc)
    moreover from j A have "\<not> occurs_at s pat (pos + j)" by simp
    ultimately show "\<not> occurs_at s pat ([pos ..< Suc (length s)] ! j)" by simp
  qed
  with i nth A show "str_find s pat pos = Some p"
    unfolding str_find_def find_Some_iff by metis
qed

lemma str_find_None_iff:
  "str_find s pat pos = None \<longleftrightarrow> (\<forall>q. pos \<le> q \<longrightarrow> \<not> occurs_at s pat q)"
proof -
  have "set [pos ..< Suc (length s)] = {q. pos \<le> q \<and> q \<le> length s}" by auto
  then show ?thesis
    unfolding str_find_def find_None_iff by (auto dest: occurs_at_le)
qed

lemma str_rfind_from_Some_iff:
  "str_rfind_from s pat pos = Some p \<longleftrightarrow>
     p \<le> pos \<and> occurs_at s pat p \<and> (\<forall>q. p < q \<and> q \<le> pos \<longrightarrow> \<not> occurs_at s pat q)"
proof
  let ?m = "min pos (length s)"
  let ?l = "rev [0 ..< Suc ?m]"
  have nth: "?l ! i = ?m - i" if "i < Suc ?m" for i
    using that by (simp add: rev_nth del: upt_Suc)
  {
    assume "str_rfind_from s pat pos = Some p"
    then obtain i where i: "i < length ?l"
      and P: "occurs_at s pat (?l ! i)"
      and p: "p = ?l ! i"
      and N: "\<forall>j<i. \<not> occurs_at s pat (?l ! j)"
      unfolding str_rfind_from_def find_Some_iff by blast
    from i have i': "i < Suc ?m" by (simp del: upt_Suc)
    with p nth have pi: "p = ?m - i" by simp
    have "\<not> occurs_at s pat q" if "p < q \<and> q \<le> pos" for q
    proof (cases "q \<le> length s")
      case False
      then show ?thesis using occurs_at_le by (metis)
    next
      case True
      with that pi i' have lt: "?m - q < i" and q: "?m - (?m - q) = q" by arith+
      from lt N have "\<not> occurs_at s pat (?l ! (?m - q))" by blast
      moreover from lt i' have "?l ! (?m - q) = ?m - (?m - q)" by (intro nth) arith
      ultimately show ?thesis using q by simp
    qed
    with P p pi show "p \<le> pos \<and> occurs_at s pat p \<and>
        (\<forall>q. p < q \<and> q \<le> pos \<longrightarrow> \<not> occurs_at s pat q)"
      by simp
  }
  {
    assume A: "p \<le> pos \<and> occurs_at s pat p \<and>
        (\<forall>q. p < q \<and> q \<le> pos \<longrightarrow> \<not> occurs_at s pat q)"
    then have "p \<le> length s" by (blast dest: occurs_at_le)
    with A have le: "p \<le> ?m" by simp
    then have i: "?m - p < length ?l" by (simp del: upt_Suc)
    have np: "?l ! (?m - p) = p" using le nth [of "?m - p"] by simp
    have "\<forall>j<?m - p. \<not> occurs_at s pat (?l ! j)"
    proof (intro allI impI)
      fix j assume j: "j < ?m - p"
      then have "?l ! j = ?m - j" by (intro nth) arith
      moreover from j have "p < ?m - j \<and> ?m - j \<le> pos" by arith
      with A have "\<not> occurs_at s pat (?m - j)" by blast
      ultimately show "\<not> occurs_at s pat (?l ! j)" by simp
    qed
    with i np A show "str_rfind_from s pat pos = Some p"
      unfolding str_rfind_from_def find_Some_iff by metis
  }
qed

lemma str_rfind_from_None_iff:
  "str_rfind_from s pat pos = None \<longleftrightarrow> (\<forall>q. q \<le> pos \<longrightarrow> \<not> occurs_at s pat q)"
proof -
  have "set (rev [0 ..< Suc (min pos (length s))]) = {q. q \<le> pos \<and> q \<le> length s}" by auto
  then show ?thesis
    unfolding str_rfind_from_def find_None_iff by (auto dest: occurs_at_le)
qed

lemma str_rfind_Some_iff:
  "str_rfind s pat = Some p \<longleftrightarrow>
     occurs_at s pat p \<and> (\<forall>q. p < q \<longrightarrow> \<not> occurs_at s pat q)"
  unfolding str_rfind_def str_rfind_from_Some_iff
  by (meson occurs_at_le)

lemma str_rfind_None_iff:
  "str_rfind s pat = None \<longleftrightarrow> (\<forall>q. \<not> occurs_at s pat q)"
  unfolding str_rfind_def str_rfind_from_None_iff
  by (meson occurs_at_le)

section \<open>The antecedent parser\<close>

declare split_while.simps [simp del]
declare reglas_loop.simps [simp del]
declare hechos_loop.simps [simp del]
declare objetivo_loop.simps [simp del]

lemma length_op_delim [simp]: "length (op_delim c) = 3"
  by (simp add: op_delim_def)

lemma split_while_None [simp]:
  "split_while c alfaStr alfaLower start None lits = (start, lits)"
  by (subst split_while.simps) simp

lemma split_while_Some [simp]:
  "split_while c alfaStr alfaLower start (Some p) lits =
     split_while c alfaStr alfaLower (p + 3) (str_find alfaLower (op_delim c) (p + 3))
       (lits @ [trim (substr alfaStr start (p - start))])"
  by (subst split_while.simps) simp

lemma split_while_lits:
  "\<exists>ps. snd (split_while c alfaStr alfaLower start pos lits) = lits @ map trim ps
        \<and> (pos \<noteq> None \<longrightarrow> ps \<noteq> [])"
proof (induction c alfaStr alfaLower start pos lits rule: split_while.induct)
  case (1 c alfaStr alfaLower start pos lits)
  show ?case
  proof (cases pos)
    case None
    then show ?thesis by simp
  next
    case (Some p)
    from "1" [OF Some] obtain ps where
      "snd (split_while c alfaStr alfaLower (p + length (op_delim c))
             (str_find alfaLower (op_delim c) (p + length (op_delim c)))
             (lits @ [trim (substr alfaStr start (p - start))]))
       = (lits @ [trim (substr alfaStr start (p - start))]) @ map trim ps"
      by blast
    then have "snd (split_while c alfaStr alfaLower start pos lits)
       = lits @ map trim (substr alfaStr start (p - start) # ps)"
      using Some by simp
    then show ?thesis by blast
  qed
qed

lemma literales_shape:
  assumes "literales alfaStr = (op, ls)"
  shows "\<exists>ps. ls = map trim ps \<and> ps \<noteq> []
           \<and> (op = NINGUNO \<longrightarrow> length ps = 1) \<and> (op \<noteq> NINGUNO \<longrightarrow> 2 \<le> length ps)"
proof -
  let ?low = "toLower alfaStr"
  let ?posY = "str_find ?low opY 0"
  let ?posO = "str_find ?low opO 0"
  consider (y) "?posY \<noteq> None \<and> (?posO = None \<or> the ?posY < the ?posO)"
    | (o) "\<not> (?posY \<noteq> None \<and> (?posO = None \<or> the ?posY < the ?posO))" "?posO \<noteq> None"
    | (n) "\<not> (?posY \<noteq> None \<and> (?posO = None \<or> the ?posY < the ?posO))" "?posO = None"
    by blast
  then show ?thesis
  proof cases
    case y
    obtain st lits where sw: "split_while CHR ''y'' alfaStr ?low 0 ?posY [] = (st, lits)"
      by (cases "split_while CHR ''y'' alfaStr ?low 0 ?posY []")
    from split_while_lits [of "CHR ''y''" alfaStr ?low 0 ?posY "[]"] sw y
    obtain ps where ps: "lits = map trim ps" "ps \<noteq> []" by auto
    from assms y sw have "op = Y" and "ls = lits @ [trim (substr_from alfaStr st)]"
      by (auto simp: literales_def Let_def)
    with ps have "ls = map trim (ps @ [substr_from alfaStr st])" "2 \<le> length (ps @ [substr_from alfaStr st])"
      by (simp_all add: Suc_le_eq)
    with \<open>op = Y\<close> show ?thesis by blast
  next
    case o
    obtain st lits where sw: "split_while CHR ''o'' alfaStr ?low 0 ?posO [] = (st, lits)"
      by (cases "split_while CHR ''o'' alfaStr ?low 0 ?posO []")
    from split_while_lits [of "CHR ''o''" alfaStr ?low 0 ?posO "[]"] sw o
    obtain ps where ps: "lits = map trim ps" "ps \<noteq> []" by auto
    from assms o sw have "op = O'" and "ls = lits @ [trim (substr_from alfaStr st)]"
      by (auto simp: literales_def Let_def)
    with ps have "ls = map trim (ps @ [substr_from alfaStr st])" "2 \<le> length (ps @ [substr_from alfaStr st])"
      by (simp_all add: Suc_le_eq)
    with \<open>op = O'\<close> show ?thesis by blast
  next
    case n
    with assms have "op = NINGUNO" and "ls = map trim [alfaStr]"
      by (auto simp: literales_def Let_def)
    then show ?thesis by (metis length_Cons list.size(3) list.distinct(1) One_nat_def)
  qed
qed

lemma push_literales_result:
  "operador (snd (push_literales ls ant)) = operador ant
   \<and> condiciones (snd (push_literales ls ant))
       = condiciones ant @ map (\<lambda>l. Hecho_nuevo\<lparr>nombre := l\<rparr>) (takeWhile (\<lambda>l. l \<noteq> []) ls)
   \<and> (fst (push_literales ls ant) = None
        \<longleftrightarrow> [] \<notin> set ls \<and> (condiciones ant \<noteq> [] \<or> ls \<noteq> []))"
  by (induction ls arbitrary: ant) auto

lemma parsearAntecedente_ok:
  assumes "parsearAntecedente alfaStr Antecedente_nuevo = (None, ant)"
  shows "\<exists>ps. literales alfaStr = (operador ant, map trim ps)
           \<and> condiciones ant = map (\<lambda>l. Hecho_nuevo\<lparr>nombre := l\<rparr>) (map trim ps)
           \<and> [] \<notin> set (map trim ps) \<and> ps \<noteq> []
           \<and> (operador ant = NINGUNO \<longrightarrow> length ps = 1)
           \<and> (operador ant \<noteq> NINGUNO \<longrightarrow> 2 \<le> length ps)"
proof -
  obtain op ls where l: "literales alfaStr = (op, ls)"
    by (cases "literales alfaStr")
  from literales_shape [OF l] obtain ps where ps: "ls = map trim ps" "ps \<noteq> []"
    "op = NINGUNO \<longrightarrow> length ps = 1" "op \<noteq> NINGUNO \<longrightarrow> 2 \<le> length ps"
    by blast
  let ?a0 = "(Antecedente_nuevo :: 'a Antecedente)\<lparr>operador := op\<rparr>"
  from assms l have r: "push_literales ls ?a0 = (None, ant)"
    by (simp add: parsearAntecedente_def)
  from push_literales_result [of ls ?a0] r
  have o: "operador ant = op"
    and c: "condiciones ant
            = map (\<lambda>l. Hecho_nuevo\<lparr>nombre := l\<rparr>) (takeWhile (\<lambda>l. l \<noteq> []) ls)"
    and n: "[] \<notin> set ls"
    by (simp_all add: Antecedente_nuevo_def)
  from n have "\<forall>x\<in>set ls. x \<noteq> []" by metis
  then have "takeWhile (\<lambda>l. l \<noteq> []) ls = ls" by simp
  with c have c': "condiciones ant = map (\<lambda>l. Hecho_nuevo\<lparr>nombre := l\<rparr>) ls" by simp
  from l o c' n ps(2,3,4) show ?thesis unfolding ps(1) by blast
qed

text \<open>
  Claim C9. Whenever \<^verbatim>\<open>parsearAntecedente\<close> returns true on a fresh antecedent, the list
  of conditions of the result is not empty, and if the operator is \<open>NINGUNO\<close> the list has
  exactly one element.
\<close>

theorem parsearAntecedente_invariante:
  assumes "parsearAntecedente alfaStr Antecedente_nuevo = (None, ant)"
  shows "condiciones ant \<noteq> []
         \<and> (operador ant = NINGUNO \<longrightarrow> length (condiciones ant) = 1)"
  using parsearAntecedente_ok [OF assms] by auto

theorem parsearAntecedente_invariante_witness:
  "parsearAntecedente ''h4'' Antecedente_nuevo =
     (None, \<lparr>condiciones = [\<lparr>nombre = ''h4'', factorCerteza = 0 :: int\<rparr>],
             operador = NINGUNO\<rparr>)
   \<and> condiciones \<lparr>condiciones = [\<lparr>nombre = ''h4'', factorCerteza = 0 :: int\<rparr>],
             operador = NINGUNO\<rparr> \<noteq> []
   \<and> length (condiciones \<lparr>condiciones = [\<lparr>nombre = ''h4'', factorCerteza = 0 :: int\<rparr>],
             operador = NINGUNO\<rparr>) = 1"
proof -
  have h: "parsearAntecedente ''h4'' Antecedente_nuevo =
     (None, \<lparr>condiciones = [\<lparr>nombre = ''h4'', factorCerteza = 0 :: int\<rparr>],
             operador = NINGUNO\<rparr>)"
    by code_simp
  from parsearAntecedente_invariante [OF h] h show ?thesis by simp
qed

text \<open>
  Claim C10. Whenever \<^verbatim>\<open>parsearAntecedente\<close> returns true on a fresh antecedent with
  the operator \<open>Y\<close> or \<open>O\<close>, the result has at least two conditions, and the name of each
  is not empty and is trimmed: it neither starts nor ends with white space.
\<close>

theorem parsearAntecedente_binario:
  assumes "parsearAntecedente alfaStr Antecedente_nuevo = (None, ant)"
    and "operador ant = Y \<or> operador ant = O'"
  shows "2 \<le> length (condiciones ant)
         \<and> (\<forall>h\<in>set (condiciones ant).
               nombre h \<noteq> [] \<and> \<not> isspace (hd (nombre h)) \<and> \<not> isspace (last (nombre h)))"
proof -
  from parsearAntecedente_ok [OF assms(1)] obtain ps where
    c: "condiciones ant = map (\<lambda>l. Hecho_nuevo\<lparr>nombre := l\<rparr>) (map trim ps)"
    and n: "[] \<notin> set (map trim ps)"
    and l: "operador ant \<noteq> NINGUNO \<longrightarrow> 2 \<le> length ps"
    by blast
  from assms(2) l have "2 \<le> length ps" by auto
  with c have "2 \<le> length (condiciones ant)" by simp
  moreover have "nombre h \<noteq> [] \<and> \<not> isspace (hd (nombre h)) \<and> \<not> isspace (last (nombre h))"
    if "h \<in> set (condiciones ant)" for h
  proof -
    from that c obtain p where p: "p \<in> set ps" and h: "nombre h = trim p" by auto
    from p n have "trim p \<noteq> []" by force
    with h trim_hd [of p] trim_last [of p] show ?thesis by simp
  qed
  ultimately show ?thesis by blast
qed

theorem parsearAntecedente_binario_witness:
  "parsearAntecedente '' h5  y  h6 '' Antecedente_nuevo =
     (None, \<lparr>condiciones = [\<lparr>nombre = ''h5'', factorCerteza = 0 :: int\<rparr>,
                             \<lparr>nombre = ''h6'', factorCerteza = 0\<rparr>],
             operador = Y\<rparr>)
   \<and> 2 \<le> length (condiciones \<lparr>condiciones = [\<lparr>nombre = ''h5'', factorCerteza = 0 :: int\<rparr>,
                             \<lparr>nombre = ''h6'', factorCerteza = 0\<rparr>], operador = Y\<rparr>)
   \<and> \<not> isspace (hd ''h5'') \<and> \<not> isspace (last ''h5'')
   \<and> \<not> isspace (hd ''h6'') \<and> \<not> isspace (last ''h6'')"
proof -
  let ?ant = "\<lparr>condiciones = [\<lparr>nombre = ''h5'', factorCerteza = 0 :: int\<rparr>,
                             \<lparr>nombre = ''h6'', factorCerteza = 0\<rparr>], operador = Y\<rparr>"
  have h: "parsearAntecedente '' h5  y  h6 '' Antecedente_nuevo = (None, ?ant)"
    by code_simp
  have o: "operador ?ant = Y \<or> operador ?ant = O'" by simp
  note r = parsearAntecedente_binario [OF h o]
  from r have "\<not> isspace (hd ''h5'')" and "\<not> isspace (last ''h5'')"
    and "\<not> isspace (hd ''h6'')" and "\<not> isspace (last ''h6'')"
    by simp_all
  with r h show ?thesis by blast
qed

section \<open>The loops of the two loaders\<close>

declare lineas.simps [simp del]
declare siguiente_no_vacia.simps [simp del]
declare split_ci.simps [simp del]



lemma reglas_loop_blank:
  "i < n \<Longrightarrow> getline archivo = Some (l, resto) \<Longrightarrow> trim l = [] \<Longrightarrow>
   reglas_loop stod n i archivo bc = reglas_loop stod n i resto bc"
  by (subst reglas_loop.simps) simp

lemma reglas_loop_error:
  "i < n \<Longrightarrow> getline archivo = Some (l, resto) \<Longrightarrow> trim l \<noteq> [] \<Longrightarrow>
   parsear_regla stod (trim l) = Line_error e \<Longrightarrow>
   reglas_loop stod n i archivo bc = (Failed e, resto, bc)"
  by (subst reglas_loop.simps) simp

lemma reglas_loop_ok:
  "i < n \<Longrightarrow> getline archivo = Some (l, resto) \<Longrightarrow> trim l \<noteq> [] \<Longrightarrow>
   parsear_regla stod (trim l) = Line_ok r \<Longrightarrow>
   reglas_loop stod n i archivo bc =
     reglas_loop stod n (i + 1) resto (bc\<lparr>reglas := reglas bc @ [r]\<rparr>)"
  by (subst reglas_loop.simps) simp

lemma hechos_loop_done:
  "\<not> i < n \<Longrightarrow> hechos_loop stod n i archivo bh = (Loaded, archivo, bh)"
  by (subst hechos_loop.simps) simp

lemma hechos_loop_eof:
  "i < n \<Longrightarrow> getline archivo = None \<Longrightarrow>
   hechos_loop stod n i archivo bh = (Failed UnexpectedEOF, archivo, bh)"
  by (subst hechos_loop.simps) simp

lemma hechos_loop_blank:
  "i < n \<Longrightarrow> getline archivo = Some (l, resto) \<Longrightarrow> trim l = [] \<Longrightarrow>
   hechos_loop stod n i archivo bh = hechos_loop stod n i resto bh"
  by (subst hechos_loop.simps) simp

lemma hechos_loop_error:
  "i < n \<Longrightarrow> getline archivo = Some (l, resto) \<Longrightarrow> trim l \<noteq> [] \<Longrightarrow>
   parsear_hecho stod (trim l) = Line_error e \<Longrightarrow>
   hechos_loop stod n i archivo bh = (Failed e, resto, bh)"
  by (subst hechos_loop.simps) simp

lemma hechos_loop_ok:
  "i < n \<Longrightarrow> getline archivo = Some (l, resto) \<Longrightarrow> trim l \<noteq> [] \<Longrightarrow>
   parsear_hecho stod (trim l) = Line_ok h \<Longrightarrow>
   hechos_loop stod n i archivo bh =
     hechos_loop stod n (i + 1) resto
       (bh\<lparr>hechos_iniciales := hechos_iniciales bh @ [h],
           fc_memoria := (fc_memoria bh)(nombre h \<mapsto> factorCerteza h)\<rparr>)"
  by (subst hechos_loop.simps) simp


lemma lineas_Cons:
  "lineas archivo = l # ls \<longleftrightarrow> (\<exists>resto. getline archivo = Some (l, resto) \<and> lineas resto = ls)"
  by (subst lineas.simps) (auto split: option.splits)


lemma prueba_1_getline:
  "getline prueba_1_reglas = Some (''4'',
     ''R1: Si h2 o h3 Entonces h1, FC = 0.5'' @ [CHR 0x0A] @
     ''R2: Si h4 Entonces h1, FC = 1'' @ [CHR 0x0A] @
     ''R3: Si h5 y h6 Entonces h3, FC = 0.7'' @ [CHR 0x0A] @
     ''R4: Si h7 Entonces h3, FC = -0.5'' @ [CHR 0x0A])"
  by code_simp

lemma prueba_1_linea_1:
  "parsear_regla stod ''R1: Si h2 o h3 Entonces h1, FC = 0.5'' = Line_error MissingFCMarker"
proof -
  have a: "str_find ''R1: Si h2 o h3 Entonces h1, FC = 0.5'' [CHR '':''] 0 = Some 2"
    by code_simp
  have b: "str_rfind (toLower (trim (substr_from ''R1: Si h2 o h3 Entonces h1, FC = 0.5'' 3)))
             ''fc='' = None"
    by code_simp
  show ?thesis
    unfolding parsear_regla_def a by (simp add: b Let_def)
qed

text \<open>
  Claim C1 (the code at the file of the claim). The file has the four rule lines as
  \<^verbatim>\<open>main\<close> writes them, with \<^verbatim>\<open>FC = 0.5\<close>: a space stands between \<^verbatim>\<open>FC\<close> and
  \<^verbatim>\<open>=\<close>. Line 169 searches for the three bytes \<^verbatim>\<open>fc=\<close>, finds none in the first rule
  line and \<^verbatim>\<open>cargarReglas\<close> returns false with the message of line 172, for any
  conversion \<open>stod\<close> and with the knowledge base left as it was: no rule is loaded.
\<close>

theorem prueba_1_reglas_falla:
  "cargarReglas stod (Some prueba_1_reglas) bc = (Failed MissingFCMarker, bc, [])"
proof -
  have t: "stoi (trim ''4'') = StoiValue 4" by code_simp
  have g: "getline (''R1: Si h2 o h3 Entonces h1, FC = 0.5'' @ [CHR 0x0A] @
     ''R2: Si h4 Entonces h1, FC = 1'' @ [CHR 0x0A] @
     ''R3: Si h5 y h6 Entonces h3, FC = 0.7'' @ [CHR 0x0A] @
     ''R4: Si h7 Entonces h3, FC = -0.5'' @ [CHR 0x0A]) =
     Some (''R1: Si h2 o h3 Entonces h1, FC = 0.5'',
     ''R2: Si h4 Entonces h1, FC = 1'' @ [CHR 0x0A] @
     ''R3: Si h5 y h6 Entonces h3, FC = 0.7'' @ [CHR 0x0A] @
     ''R4: Si h7 Entonces h3, FC = -0.5'' @ [CHR 0x0A])"
    by code_simp
  have tl: "trim ''R1: Si h2 o h3 Entonces h1, FC = 0.5'' = ''R1: Si h2 o h3 Entonces h1, FC = 0.5''"
    by code_simp
  have "reglas_loop stod 4 0 (''R1: Si h2 o h3 Entonces h1, FC = 0.5'' @ [CHR 0x0A] @
     ''R2: Si h4 Entonces h1, FC = 1'' @ [CHR 0x0A] @
     ''R3: Si h5 y h6 Entonces h3, FC = 0.7'' @ [CHR 0x0A] @
     ''R4: Si h7 Entonces h3, FC = -0.5'' @ [CHR 0x0A]) bc
     = (Failed MissingFCMarker, ''R2: Si h4 Entonces h1, FC = 1'' @ [CHR 0x0A] @
     ''R3: Si h5 y h6 Entonces h3, FC = 0.7'' @ [CHR 0x0A] @
     ''R4: Si h7 Entonces h3, FC = -0.5'' @ [CHR 0x0A], bc)"
    by (rule reglas_loop_error [OF _ g]) (simp_all add: tl prueba_1_linea_1)
  then show ?thesis
    unfolding cargarReglas_def by (simp add: prueba_1_getline t)
qed

lemma reglas_de_Nil [simp]: "reglas_de stod [] = []"
  by (simp add: reglas_de_def)

lemma reglas_de_blank: "strip l = [] \<Longrightarrow> reglas_de stod (l # ls) = reglas_de stod ls"
  by (simp add: reglas_de_def)

lemma reglas_de_ok:
  "strip l \<noteq> [] \<Longrightarrow> parsear_regla stod (strip l) = Line_ok r \<Longrightarrow>
   reglas_de stod (l # ls) = r # reglas_de stod ls"
  by (simp add: reglas_de_def)

lemma hechos_de_Nil [simp]: "hechos_de stod [] = []"
  by (simp add: hechos_de_def)

lemma hechos_de_blank: "strip l = [] \<Longrightarrow> hechos_de stod (l # ls) = hechos_de stod ls"
  by (simp add: hechos_de_def)

lemma hechos_de_ok:
  "strip l \<noteq> [] \<Longrightarrow> parsear_hecho stod (strip l) = Line_ok h \<Longrightarrow>
   hechos_de stod (l # ls) = h # hechos_de stod ls"
  by (simp add: hechos_de_def)

lemma memoria_de_Nil [simp]: "memoria_de [] = Map.empty"
  by (simp add: memoria_de_def)

lemma memoria_de_Cons:
  "m ++ memoria_de (h # hs) = m(nombre h \<mapsto> factorCerteza h) ++ memoria_de hs"
  by (simp add: memoria_de_def map_add_upd_left fun_eq_iff map_add_def split: option.splits)

lemma memoria_de_snoc:
  "memoria_de (hs @ [h]) = (memoria_de hs)(nombre h \<mapsto> factorCerteza h)"
  by (simp add: memoria_de_def)

lemma reglas_loop_prefix:
  assumes "lineas archivo = ls @ rest"
    and "\<forall>l\<in>set ls. linea_regla_ok stod l"
    and "i + int (length (reglas_de stod ls)) < n"
  shows "\<exists>archivo'. lineas archivo' = rest
           \<and> reglas_loop stod n i archivo bc =
               reglas_loop stod n (i + int (length (reglas_de stod ls))) archivo'
                 (bc\<lparr>reglas := reglas bc @ reglas_de stod ls\<rparr>)"
  using assms
proof (induction ls arbitrary: archivo i bc)
  case Nil
  then show ?case by auto
next
  case (Cons l ls)
  from Cons.prems(1) obtain resto where g: "getline archivo = Some (l, resto)"
    and r: "lineas resto = ls @ rest"
    by (auto simp: lineas_Cons)
  from Cons.prems(3) have lt: "i < n" by simp
  from Cons.prems(2) have oks: "\<forall>l\<in>set ls. linea_regla_ok stod l"
    and ok: "linea_regla_ok stod l" by simp_all
  have ts: "strip l = trim l" by (simp add: trim_strip)
  show ?case
  proof (cases "trim l = []")
    case True
    with Cons.prems(3) have "i + int (length (reglas_de stod ls)) < n"
      by (simp add: reglas_de_blank ts)
    from Cons.IH [OF r oks this, of bc] True show ?thesis
      by (simp add: reglas_loop_blank [OF lt g True] reglas_de_blank ts)
  next
    case False
    with ok obtain ru where p: "parsear_regla stod (trim l) = Line_ok ru"
      by (auto simp: linea_regla_ok_def ts split: line_result.splits)
    note d = reglas_de_ok [of l, unfolded ts, OF False p]
    from Cons.prems(3) have "(i + 1) + int (length (reglas_de stod ls)) < n"
      by (simp add: d)
    from Cons.IH [OF r oks this, of "bc\<lparr>reglas := reglas bc @ [ru]\<rparr>"] show ?thesis
      by (simp add: reglas_loop_ok [OF lt g False p] d add.assoc)
  qed
qed

lemma hechos_loop_prefix:
  assumes "lineas archivo = ls @ rest"
    and "\<forall>l\<in>set ls. linea_hecho_ok stod l"
    and "i + int (length (hechos_de stod ls)) < n"
  shows "\<exists>archivo'. lineas archivo' = rest
           \<and> hechos_loop stod n i archivo bh =
               hechos_loop stod n (i + int (length (hechos_de stod ls))) archivo'
                 (bh\<lparr>hechos_iniciales := hechos_iniciales bh @ hechos_de stod ls,
                     fc_memoria := fc_memoria bh ++ memoria_de (hechos_de stod ls)\<rparr>)"
  using assms
proof (induction ls arbitrary: archivo i bh)
  case Nil
  then show ?case by auto
next
  case (Cons l ls)
  from Cons.prems(1) obtain resto where g: "getline archivo = Some (l, resto)"
    and r: "lineas resto = ls @ rest"
    by (auto simp: lineas_Cons)
  from Cons.prems(3) have lt: "i < n" by simp
  from Cons.prems(2) have oks: "\<forall>l\<in>set ls. linea_hecho_ok stod l"
    and ok: "linea_hecho_ok stod l" by simp_all
  have ts: "strip l = trim l" by (simp add: trim_strip)
  show ?case
  proof (cases "trim l = []")
    case True
    with Cons.prems(3) have "i + int (length (hechos_de stod ls)) < n"
      by (simp add: hechos_de_blank ts)
    from Cons.IH [OF r oks this, of bh] True show ?thesis
      by (simp add: hechos_loop_blank [OF lt g True] hechos_de_blank ts)
  next
    case False
    with ok obtain h where p: "parsear_hecho stod (trim l) = Line_ok h"
      by (auto simp: linea_hecho_ok_def ts split: line_result.splits)
    note d = hechos_de_ok [of l, unfolded ts, OF False p]
    from Cons.prems(3) have lt': "(i + 1) + int (length (hechos_de stod ls)) < n"
      by (simp add: d)
    let ?bh1 = "bh\<lparr>hechos_iniciales := hechos_iniciales bh @ [h],
                   fc_memoria := (fc_memoria bh)(nombre h \<mapsto> factorCerteza h)\<rparr>"
    let ?hs = "hechos_de stod ls"
    from Cons.IH [OF r oks lt', of ?bh1]
    obtain a' where a': "lineas a' = rest"
      and eq: "hechos_loop stod n (i + 1) resto ?bh1 =
                 hechos_loop stod n (i + 1 + int (length ?hs)) a'
                   (?bh1\<lparr>hechos_iniciales := hechos_iniciales ?bh1 @ ?hs,
                        fc_memoria := fc_memoria ?bh1 ++ memoria_de ?hs\<rparr>)"
      by blast
    have m: "fc_memoria ?bh1 ++ memoria_de ?hs = fc_memoria bh ++ memoria_de (h # ?hs)"
      by (simp add: memoria_de_Cons)
    have st: "?bh1\<lparr>hechos_iniciales := hechos_iniciales ?bh1 @ ?hs,
                  fc_memoria := fc_memoria ?bh1 ++ memoria_de ?hs\<rparr>
              = bh\<lparr>hechos_iniciales := hechos_iniciales bh @ h # ?hs,
                   fc_memoria := fc_memoria bh ++ memoria_de (h # ?hs)\<rparr>"
      unfolding m by simp
    have ix: "i + 1 + int (length ?hs) = i + int (length (h # ?hs))" by simp
    from eq have "hechos_loop stod n i archivo bh =
        hechos_loop stod n (i + int (length (hechos_de stod (l # ls)))) a'
          (bh\<lparr>hechos_iniciales := hechos_iniciales bh @ hechos_de stod (l # ls),
              fc_memoria := fc_memoria bh ++ memoria_de (hechos_de stod (l # ls))\<rparr>)"
      unfolding hechos_loop_ok [OF lt g False p] d st ix .
    with a' show ?thesis by blast
  qed
qed

lemma cargarReglas_linea_mala:
  assumes "lineas contenido = hdr # ls @ bad # otras"
    and "stoi (strip hdr) = StoiValue n"
    and "\<forall>l\<in>set ls. linea_regla_ok stod l"
    and "int (length (reglas_de stod ls)) < n"
    and "strip bad \<noteq> []"
    and "parsear_regla stod (strip bad) = Line_error e"
  shows "cargarReglas stod (Some contenido) bc =
           (Failed e, bc\<lparr>reglas := reglas bc @ reglas_de stod ls\<rparr>, [])"
proof -
  from assms(1) obtain resto where g: "getline contenido = Some (hdr, resto)"
    and r: "lineas resto = ls @ bad # otras"
    by (auto simp: lineas_Cons)
  from assms(4) have "0 + int (length (reglas_de stod ls)) < n" by simp
  from reglas_loop_prefix [OF r assms(3) this, of bc]
  obtain a' where a: "lineas a' = bad # otras"
    and l: "reglas_loop stod n 0 resto bc =
              reglas_loop stod n (int (length (reglas_de stod ls))) a'
                (bc\<lparr>reglas := reglas bc @ reglas_de stod ls\<rparr>)"
    by auto
  from a obtain a'' where g': "getline a' = Some (bad, a'')"
    by (auto simp: lineas_Cons)
  from l reglas_loop_error [OF assms(4) g' assms(5) [folded trim_strip] assms(6) [folded trim_strip]]
  have "reglas_loop stod n 0 resto bc =
          (Failed e, a'', bc\<lparr>reglas := reglas bc @ reglas_de stod ls\<rparr>)"
    by simp
  then show ?thesis
    by (simp add: cargarReglas_def g assms(2) [folded trim_strip])
qed

lemma cargarHechos_linea_mala:
  assumes "lineas contenido = hdr # ls @ bad # otras"
    and "stoi (strip hdr) = StoiValue n"
    and "\<forall>l\<in>set ls. linea_hecho_ok stod l"
    and "int (length (hechos_de stod ls)) < n"
    and "strip bad \<noteq> []"
    and "parsear_hecho stod (strip bad) = Line_error e"
  shows "cargarHechos stod (Some contenido) bh =
           (Failed e,
            bh\<lparr>hechos_iniciales := hechos_iniciales bh @ hechos_de stod ls,
               fc_memoria := fc_memoria bh ++ memoria_de (hechos_de stod ls)\<rparr>, [])"
proof -
  from assms(1) obtain resto where g: "getline contenido = Some (hdr, resto)"
    and r: "lineas resto = ls @ bad # otras"
    by (auto simp: lineas_Cons)
  from assms(4) have "0 + int (length (hechos_de stod ls)) < n" by simp
  from hechos_loop_prefix [OF r assms(3) this, of bh]
  obtain a' where a: "lineas a' = bad # otras"
    and l: "hechos_loop stod n 0 resto bh =
              hechos_loop stod n (int (length (hechos_de stod ls))) a'
                (bh\<lparr>hechos_iniciales := hechos_iniciales bh @ hechos_de stod ls,
                    fc_memoria := fc_memoria bh ++ memoria_de (hechos_de stod ls)\<rparr>)"
    by auto
  from a obtain a'' where g': "getline a' = Some (bad, a'')"
    by (auto simp: lineas_Cons)
  from l hechos_loop_error [OF assms(4) g' assms(5) [folded trim_strip] assms(6) [folded trim_strip]]
  have "hechos_loop stod n 0 resto bh =
          (Failed e, a'',
           bh\<lparr>hechos_iniciales := hechos_iniciales bh @ hechos_de stod ls,
              fc_memoria := fc_memoria bh ++ memoria_de (hechos_de stod ls)\<rparr>)"
    by simp
  then show ?thesis
    by (simp add: cargarHechos_def g assms(2) [folded trim_strip])
qed

lemma sin_entonces:
  assumes "stod fcValorStr = StodValue fc"
    and "\<forall>q. 3 \<le> q \<longrightarrow> \<not> occurs_at (toLower reglaSiEntonces) '' entonces '' q"
  shows "regla_de_partes stod r_id fcValorStr reglaSiEntonces = Line_error MissingKeyword"
proof -
  from assms(2) have "str_find (toLower reglaSiEntonces) '' entonces '' 3 = None"
    by (simp add: str_find_None_iff)
  then have "str_find (toLower reglaSiEntonces) '' entonces '' (Suc (Suc (Suc 0))) = None"
    by (simp add: numeral_3_eq_3)
  with assms(1) show ?thesis
    by (simp add: regla_de_partes_def Let_def)
qed

lemma occurs_at_char:
  "occurs_at s [c] q \<longleftrightarrow> q < length s \<and> s ! q = c"
proof (cases "q < length s")
  case True
  then have "drop q s = s ! q # drop (Suc q) s" by (simp add: Cons_nth_drop_Suc)
  with True show ?thesis by (simp add: occurs_at_def Suc_le_eq)
next
  case False
  then show ?thesis by (simp add: occurs_at_def)
qed

lemma sin_coma:
  assumes "CHR '','' \<notin> set linea"
  shows "parsear_hecho stod linea = Line_error MissingDelimiter"
proof -
  have "\<not> occurs_at linea [CHR '',''] q" for q
  proof
    assume "occurs_at linea [CHR '',''] q"
    then have "q < length linea" and "linea ! q = CHR '',''"
      by (simp_all add: occurs_at_char)
    then have "CHR '','' \<in> set linea" using nth_mem by force
    with assms show False by contradiction
  qed
  then have "str_rfind linea [CHR '',''] = None"
    by (simp add: str_rfind_None_iff)
  then show ?thesis
    by (simp add: parsear_hecho_def)
qed

section \<open>The count line\<close>

lemma strip_no_leading_space: "dropWhile isspace (strip s) = strip s"
proof (cases "strip s = []")
  case True
  then show ?thesis by simp
next
  case False
  then have "trim s \<noteq> []" by (simp add: trim_strip)
  from trim_hd [OF this] have "\<not> isspace (hd (strip s))" by (simp add: trim_strip)
  with False show ?thesis by (cases "strip s") simp_all
qed

lemma stoi_invalid_iff:
  "stoi s = StoiInvalidArgument \<longleftrightarrow> \<not> starts_with_integer (dropWhile isspace s)"
proof -
  have tw: "takeWhile isdigit xs = [] \<longleftrightarrow> (case xs of [] \<Rightarrow> True | d # _ \<Rightarrow> \<not> isdigit d)"
    for xs by (cases xs) simp_all
  define s1 where "s1 = dropWhile isspace s"
  have "stoi s = StoiInvalidArgument \<longleftrightarrow> \<not> starts_with_integer s1"
    unfolding stoi_def Let_def s1_def [symmetric]
    by (cases s1; cases "tl s1") (auto simp: starts_with_integer_def tw split: list.splits)
  then show ?thesis by (simp add: s1_def)
qed

lemma stoi_strip_invalid_iff:
  "stoi (trim s) = StoiInvalidArgument \<longleftrightarrow> \<not> starts_with_integer (strip s)"
  by (simp add: stoi_invalid_iff trim_strip strip_no_leading_space)

lemma cargarReglas_Loaded_header:
  assumes "fst (cargarReglas stod (Some contenido) bc) = Loaded"
  shows "\<exists>hdr resto. getline contenido = Some (hdr, resto) \<and> starts_with_integer (strip hdr)"
proof (cases "getline contenido")
  case None
  with assms show ?thesis by (simp add: cargarReglas_def)
next
  case (Some a)
  obtain hdr resto where a: "a = (hdr, resto)" by (cases a)
  have "stoi (trim hdr) \<noteq> StoiInvalidArgument"
  proof
    assume "stoi (trim hdr) = StoiInvalidArgument"
    with assms Some a show False by (simp add: cargarReglas_def)
  qed
  with Some a show ?thesis by (simp add: stoi_strip_invalid_iff)
qed

lemma cargarHechos_Loaded_header:
  assumes "fst (cargarHechos stod (Some contenido) bh) = Loaded"
  shows "\<exists>hdr resto. getline contenido = Some (hdr, resto) \<and> starts_with_integer (strip hdr)"
proof (cases "getline contenido")
  case None
  with assms show ?thesis by (simp add: cargarHechos_def)
next
  case (Some a)
  obtain hdr resto where a: "a = (hdr, resto)" by (cases a)
  have "stoi (trim hdr) \<noteq> StoiInvalidArgument"
  proof
    assume "stoi (trim hdr) = StoiInvalidArgument"
    with assms Some a show False by (simp add: cargarHechos_def)
  qed
  with Some a show ?thesis by (simp add: stoi_strip_invalid_iff)
qed

text \<open>
  Claim C8 as stated fails. The first line \<^verbatim>\<open>1x\<close> is not an integer, and both loaders
  load the file: \<^verbatim>\<open>std::stoi\<close> reads the leading \<^verbatim>\<open>1\<close> and ignores the rest of the
  line.
\<close>

theorem cuenta_invalida_counterexample:
  "\<not> is_integer (strip ''1x'')
   \<and> fst (cargarReglas (\<lambda>s. if s = ''1'' then StodValue (1 :: rat) else StodInvalidArgument)
            (Some (''1x'' @ [CHR 0x0A] @ ''R1: Si a Entonces b, FC=1'' @ [CHR 0x0A]))
            bc_vacia) = Loaded
   \<and> fst (cargarHechos (\<lambda>s. if s = ''1'' then StodValue (1 :: rat) else StodInvalidArgument)
            (Some (''1x'' @ [CHR 0x0A] @ ''h1, FC=1'' @ [CHR 0x0A] @ ''Objetivo'' @ [CHR 0x0A]
                   @ ''h2'' @ [CHR 0x0A]))
            bh_vacia) = Loaded"
  by code_simp

text \<open>
  Claim C8, amended. For both loaders: when the first line, trimmed, does not start with
  an integer (an optional sign and then a decimal digit), the load fails with
  \<open>InvalidCount\<close> and leaves the container as it was; and a load that succeeds had a
  first line that, trimmed, starts with an integer. What follows the integer on that
  line is ignored.
\<close>

theorem cuenta_invalida:
  "(getline contenido = Some (hdr, resto) \<and> \<not> starts_with_integer (strip hdr)
    \<longrightarrow> cargarReglas stod (Some contenido) bc = (Failed InvalidCount, bc, [])
        \<and> cargarHechos stod (Some contenido) bh = (Failed InvalidCount, bh, []))
   \<and> (fst (cargarReglas stod (Some contenido) bc) = Loaded
       \<or> fst (cargarHechos stod (Some contenido) bh) = Loaded
    \<longrightarrow> (\<exists>hdr resto. getline contenido = Some (hdr, resto)
                      \<and> starts_with_integer (strip hdr)))"
proof (intro conjI impI)
  assume a: "getline contenido = Some (hdr, resto) \<and> \<not> starts_with_integer (strip hdr)"
  then have "stoi (trim hdr) = StoiInvalidArgument" by (simp add: stoi_strip_invalid_iff)
  with a show "cargarReglas stod (Some contenido) bc = (Failed InvalidCount, bc, [])"
    and "cargarHechos stod (Some contenido) bh = (Failed InvalidCount, bh, [])"
    by (simp_all add: cargarReglas_def cargarHechos_def)
next
  assume "fst (cargarReglas stod (Some contenido) bc) = Loaded
       \<or> fst (cargarHechos stod (Some contenido) bh) = Loaded"
  then show "\<exists>hdr resto. getline contenido = Some (hdr, resto)
                      \<and> starts_with_integer (strip hdr)"
    using cargarReglas_Loaded_header cargarHechos_Loaded_header by blast
qed


theorem cuenta_invalida_witness:
  "cargarReglas (\<lambda>s. if s = ''1'' then StodValue (1 :: rat) else StodInvalidArgument)
     (Some (''uno'' @ [CHR 0x0A] @ ''R1: Si a Entonces b, FC=1'' @ [CHR 0x0A])) bc_vacia
     = (Failed InvalidCount, bc_vacia, [])
   \<and> cargarHechos (\<lambda>s. if s = ''1'' then StodValue (1 :: rat) else StodInvalidArgument)
     (Some (''uno'' @ [CHR 0x0A] @ ''R1: Si a Entonces b, FC=1'' @ [CHR 0x0A])) bh_vacia
     = (Failed InvalidCount, bh_vacia, [])
   \<and> fst (cargarReglas (\<lambda>s. if s = ''1'' then StodValue (1 :: rat) else StodInvalidArgument)
     (Some (''1'' @ [CHR 0x0A] @ ''R1: Si a Entonces b, FC=1'' @ [CHR 0x0A])) bc_vacia) = Loaded
   \<and> starts_with_integer (strip ''1'')"
proof -
  let ?stod = "\<lambda>s. if s = ''1'' then StodValue (1 :: rat) else StodInvalidArgument"
  let ?bad = "''uno'' @ [CHR 0x0A] @ ''R1: Si a Entonces b, FC=1'' @ [CHR 0x0A]"
  let ?good = "''1'' @ [CHR 0x0A] @ ''R1: Si a Entonces b, FC=1'' @ [CHR 0x0A]"
  have g1: "getline ?bad = Some (''uno'', ''R1: Si a Entonces b, FC=1'' @ [CHR 0x0A])"
    by code_simp
  have n1: "\<not> starts_with_integer (strip ''uno'')" by code_simp
  from cuenta_invalida [of ?bad "''uno''" "''R1: Si a Entonces b, FC=1'' @ [CHR 0x0A]"
      ?stod bc_vacia bh_vacia] g1 n1
  have a: "cargarReglas ?stod (Some ?bad) bc_vacia = (Failed InvalidCount, bc_vacia, [])"
    and b: "cargarHechos ?stod (Some ?bad) bh_vacia = (Failed InvalidCount, bh_vacia, [])"
    by blast+
  have l: "fst (cargarReglas ?stod (Some ?good) bc_vacia) = Loaded" by code_simp
  have g2: "getline ?good = Some (''1'', ''R1: Si a Entonces b, FC=1'' @ [CHR 0x0A])"
    by code_simp
  from cuenta_invalida [of ?good _ _ ?stod bc_vacia bh_vacia] l
  obtain hdr resto where "getline ?good = Some (hdr, resto)"
    and "starts_with_integer (strip hdr)"
    by blast
  with g2 have c: "starts_with_integer (strip ''1'')" by simp
  from a b l c show ?thesis by blast
qed











section \<open>The fact loader\<close>

lemma dom_memoria_de: "dom (memoria_de hs) = nombre ` set hs"
  by (simp add: memoria_de_def dom_map_of_conv_image_fst image_image)

lemma memoria_de_ultimo:
  assumes "nombre h \<notin> nombre ` set hs2"
  shows "memoria_de (hs1 @ h # hs2) (nombre h) = Some (factorCerteza h)"
proof -
  from assms have "map_of (rev (map (\<lambda>h. (nombre h, factorCerteza h)) hs2)) (nombre h) = None"
    by (simp add: map_of_eq_None_iff image_image)
  then show ?thesis
    by (simp add: memoria_de_def map_add_def)
qed

lemma hechos_loop_inv:
  "hechos_loop stod n i archivo bh = (out, archivo', bh') \<Longrightarrow>
   \<exists>nuevos. hechos_iniciales bh' = hechos_iniciales bh @ nuevos
          \<and> fc_memoria bh' = fc_memoria bh ++ memoria_de nuevos
          \<and> objetivo bh' = objetivo bh"
proof (induction stod n i archivo bh rule: hechos_loop.induct)
  case (1 stod n i archivo bh)
  show ?case
  proof (cases "i < n")
    case False
    with "1.prems" have "bh' = bh" by (simp add: hechos_loop_done)
    then show ?thesis by simp
  next
    case lt: True
    show ?thesis
    proof (cases "getline archivo")
      case None
      with lt "1.prems" have "bh' = bh" by (simp add: hechos_loop_eof)
      then show ?thesis by simp
    next
      case (Some a)
      obtain l resto where a: "a = (l, resto)" by (cases a)
      note g = Some [unfolded a]
      show ?thesis
      proof (cases "trim l = []")
        case True
        with "1.prems"(1) have "hechos_loop stod n (i - 1 + 1) resto bh = (out, archivo', bh')"
          by (simp add: hechos_loop_blank [OF lt g True])
        from "1.IH"(1) [OF lt Some a [symmetric] refl True this]
        show ?thesis .
      next
        case False
        show ?thesis
        proof (cases "parsear_hecho stod (trim l)")
          case (Line_ok h)
          let ?bh1 = "bh\<lparr>hechos_iniciales := hechos_iniciales bh @ [h],
                         fc_memoria := (fc_memoria bh)(nombre h \<mapsto> factorCerteza h)\<rparr>"
          from "1.prems"(1)
          have "hechos_loop stod n (i + 1) resto ?bh1 = (out, archivo', bh')"
            by (simp add: hechos_loop_ok [OF lt g False Line_ok])
          from "1.IH"(2) [OF lt Some a [symmetric] refl False Line_ok this]
          obtain nuevos where h1: "hechos_iniciales bh' = hechos_iniciales ?bh1 @ nuevos"
            and h2: "fc_memoria bh' = fc_memoria ?bh1 ++ memoria_de nuevos"
            and h3: "objetivo bh' = objetivo ?bh1"
            by blast
          from h1 have "hechos_iniciales bh' = hechos_iniciales bh @ (h # nuevos)" by simp
          moreover from h2 have "fc_memoria bh' = fc_memoria bh ++ memoria_de (h # nuevos)"
            by (simp add: memoria_de_Cons)
          moreover from h3 have "objetivo bh' = objetivo bh" by simp
          ultimately show ?thesis by blast
        next
          case (Line_error e)
          with "1.prems"(1) have "bh' = bh"
            by (simp add: hechos_loop_error [OF lt g False Line_error])
          then show ?thesis by simp
        next
          case Line_out_of_range
          with "1.prems"(1) lt g False have "bh' = bh"
            by (subst (asm) hechos_loop.simps) simp
          then show ?thesis by simp
        qed
      qed
    qed
  qed
qed

lemma siguiente_no_vacia_None:
  "getline archivo = None \<Longrightarrow> siguiente_no_vacia archivo = None"
  by (subst siguiente_no_vacia.simps) simp

lemma siguiente_no_vacia_blank:
  "getline archivo = Some (l, resto) \<Longrightarrow> trim l = [] \<Longrightarrow>
   siguiente_no_vacia archivo = siguiente_no_vacia resto"
  by (subst siguiente_no_vacia.simps) (simp add: trim_strip)

lemma siguiente_no_vacia_line:
  "getline archivo = Some (l, resto) \<Longrightarrow> trim l \<noteq> [] \<Longrightarrow>
   siguiente_no_vacia archivo = Some (trim l, resto)"
  by (subst siguiente_no_vacia.simps) (simp add: trim_strip)

lemma siguiente_no_vacia_nonempty:
  "siguiente_no_vacia archivo = Some (t, resto) \<Longrightarrow> t \<noteq> []"
proof (induction archivo rule: siguiente_no_vacia.induct)
  case (1 archivo)
  show ?case
  proof (cases "getline archivo")
    case None
    with "1.prems" show ?thesis by (simp add: siguiente_no_vacia_None)
  next
    case (Some a)
    obtain l r where a: "a = (l, r)" by (cases a)
    note g = Some [unfolded a]
    show ?thesis
    proof (cases "trim l = []")
      case True
      with "1.prems" g have "siguiente_no_vacia r = Some (t, resto)"
        by (simp add: siguiente_no_vacia_blank)
      from "1.IH" [OF Some a [symmetric] True [unfolded trim_strip] this] show ?thesis .
    next
      case False
      with "1.prems" g show ?thesis by (simp add: siguiente_no_vacia_line)
    qed
  qed
qed

lemma objetivo_loop_True:
  "objetivo_loop True archivo bh =
     (case siguiente_no_vacia archivo of
        None \<Rightarrow> (None, True, bh)
      | Some (g, r) \<Rightarrow> (Some Loaded, True, bh\<lparr>objetivo := (objetivo bh)\<lparr>nombre := g\<rparr>\<rparr>))"
proof (induction archivo rule: siguiente_no_vacia.induct)
  case (1 archivo)
  show ?case
  proof (cases "getline archivo")
    case None
    then show ?thesis
      by (subst objetivo_loop.simps) (simp add: siguiente_no_vacia_None)
  next
    case (Some a)
    obtain l r where a: "a = (l, r)" by (cases a)
    note g = Some [unfolded a]
    show ?thesis
    proof (cases "trim l = []")
      case True
      from "1.IH" [OF Some a [symmetric] True [unfolded trim_strip]] g True show ?thesis
        by (subst objetivo_loop.simps) (simp add: siguiente_no_vacia_blank)
    next
      case False
      then have "trim (trim l) \<noteq> []" by (simp add: trim_idem)
      with g False show ?thesis
        by (subst objetivo_loop.simps) (simp add: siguiente_no_vacia_line trim_idem Let_def)
    qed
  qed
qed

lemma objetivo_loop_False:
  "objetivo_loop False archivo bh =
     (case siguiente_no_vacia archivo of
        None \<Rightarrow> (None, False, bh)
      | Some (kw, r) \<Rightarrow>
          if map tolower kw = ''objetivo'' then objetivo_loop True r bh
          else (Some (Failed MissingKeyword), False, bh))"
proof (induction archivo rule: siguiente_no_vacia.induct)
  case (1 archivo)
  show ?case
  proof (cases "getline archivo")
    case None
    then show ?thesis
      by (subst objetivo_loop.simps) (simp add: siguiente_no_vacia_None)
  next
    case (Some a)
    obtain l r where a: "a = (l, r)" by (cases a)
    note g = Some [unfolded a]
    show ?thesis
    proof (cases "trim l = []")
      case True
      from "1.IH" [OF Some a [symmetric] True [unfolded trim_strip]] g True show ?thesis
        by (subst objetivo_loop.simps) (simp add: siguiente_no_vacia_blank)
    next
      case False
      with g show ?thesis
        by (subst objetivo_loop.simps) (simp add: siguiente_no_vacia_line toLower_def Let_def)
    qed
  qed
qed

lemma leer_objetivo_eq:
  "leer_objetivo archivo bh =
     (case siguiente_no_vacia archivo of
        None \<Rightarrow> (Failed UnexpectedEOF, bh)
      | Some (kw, r1) \<Rightarrow>
          if map tolower kw \<noteq> ''objetivo'' then (Failed MissingKeyword, bh)
          else (case siguiente_no_vacia r1 of
                  None \<Rightarrow> (if nombre (objetivo bh) = [] then Failed EmptyClause else Loaded, bh)
                | Some (g, r2) \<Rightarrow> (Loaded, bh\<lparr>objetivo := (objetivo bh)\<lparr>nombre := g\<rparr>\<rparr>)))"
  by (simp add: leer_objetivo_def objetivo_loop_False objetivo_loop_True
      split: option.splits prod.splits)

lemma cargarHechos_Loaded:
  assumes "fst (cargarHechos stod archivo bh0) = Loaded"
  shows "\<exists>contenido hdr resto n resto' bh'.
           archivo = Some contenido \<and> getline contenido = Some (hdr, resto)
           \<and> stoi (trim hdr) = StoiValue n
           \<and> hechos_loop stod n 0 resto bh0 = (Loaded, resto', bh')
           \<and> fst (leer_objetivo resto' bh') = Loaded
           \<and> fst (snd (cargarHechos stod archivo bh0)) = snd (leer_objetivo resto' bh')"
proof -
  from assms obtain contenido where a: "archivo = Some contenido"
    by (cases archivo) (simp_all add: cargarHechos_def)
  from assms a obtain hdr resto where g: "getline contenido = Some (hdr, resto)"
    by (cases "getline contenido") (auto simp: cargarHechos_def)
  from assms a g obtain n where s: "stoi (trim hdr) = StoiValue n"
    by (cases "stoi (trim hdr)") (simp_all add: cargarHechos_def)
  obtain out resto' bh' where l: "hechos_loop stod n 0 resto bh0 = (out, resto', bh')"
    by (cases "hechos_loop stod n 0 resto bh0")
  from assms a g s l have out: "out = Loaded"
    by (cases out) (simp_all add: cargarHechos_def)
  from assms a g s l out
  have "fst (leer_objetivo resto' bh') = Loaded"
    and "fst (snd (cargarHechos stod archivo bh0)) = snd (leer_objetivo resto' bh')"
    by (simp_all add: cargarHechos_def Let_def split: prod.splits)
  with a g s l out show ?thesis by blast
qed

lemma leer_objetivo_memoria:
  "fc_memoria (snd (leer_objetivo archivo bh)) = fc_memoria bh
   \<and> hechos_iniciales (snd (leer_objetivo archivo bh)) = hechos_iniciales bh"
  by (simp add: leer_objetivo_eq split: option.splits prod.splits)

text \<open>
  Claim C7. After \<^verbatim>\<open>cargarHechos\<close> has returned true on an empty fact base, the names in
  \<^verbatim>\<open>fc_memoria\<close> are exactly the names of \<^verbatim>\<open>hechos_iniciales\<close>; a fact that no later
  fact of the list shares its name with gives the value stored under its name (the last
  write wins); and both containers are as the loop over the fact lines left them: the
  part of the loader that reads the goal changes neither.
\<close>

theorem memoria_sembrada:
  assumes "fst (cargarHechos stod archivo bh_vacia) = Loaded"
    and "bh = fst (snd (cargarHechos stod archivo bh_vacia))"
  shows "dom (fc_memoria bh) = nombre ` set (hechos_iniciales bh)
         \<and> (\<forall>hs1 h hs2. hechos_iniciales bh = hs1 @ h # hs2 \<and> nombre h \<notin> nombre ` set hs2
               \<longrightarrow> fc_memoria bh (nombre h) = Some (factorCerteza h))
         \<and> (\<exists>contenido hdr resto n resto' bh'.
               archivo = Some contenido \<and> getline contenido = Some (hdr, resto)
               \<and> stoi (trim hdr) = StoiValue n
               \<and> hechos_loop stod n 0 resto bh_vacia = (Loaded, resto', bh')
               \<and> fc_memoria bh = fc_memoria bh'
               \<and> hechos_iniciales bh = hechos_iniciales bh')"
proof -
  from cargarHechos_Loaded [OF assms(1)]
  obtain contenido hdr resto n resto' bh' where a: "archivo = Some contenido"
    and g: "getline contenido = Some (hdr, resto)"
    and s: "stoi (trim hdr) = StoiValue n"
    and l: "hechos_loop stod n 0 resto bh_vacia = (Loaded, resto', bh')"
    and e: "fst (snd (cargarHechos stod archivo bh_vacia)) = snd (leer_objetivo resto' bh')"
    by blast
  from e assms(2) leer_objetivo_memoria [of resto' bh']
  have m: "fc_memoria bh = fc_memoria bh'" and h: "hechos_iniciales bh = hechos_iniciales bh'"
    by simp_all
  from hechos_loop_inv [OF l] obtain nuevos
    where "hechos_iniciales bh' = hechos_iniciales bh_vacia @ nuevos"
      and "fc_memoria bh' = fc_memoria bh_vacia ++ memoria_de nuevos"
    by blast
  then have h': "hechos_iniciales bh' = nuevos" and m': "fc_memoria bh' = memoria_de nuevos"
    by (simp_all add: bh_vacia_def)
  have "dom (fc_memoria bh) = nombre ` set (hechos_iniciales bh)"
    unfolding m h h' m' by (rule dom_memoria_de)
  moreover have "\<forall>hs1 h hs2. hechos_iniciales bh = hs1 @ h # hs2 \<and> nombre h \<notin> nombre ` set hs2
               \<longrightarrow> fc_memoria bh (nombre h) = Some (factorCerteza h)"
    unfolding m h h' m' by (auto intro: memoria_de_ultimo)
  ultimately show ?thesis using a g s l m h by blast
qed

theorem memoria_sembrada_witness:
  "fst (cargarHechos
          (\<lambda>s. if s = ''1'' then StodValue (1 :: rat)
               else if s = ''0.5'' then StodValue (1 / 2) else StodInvalidArgument)
          (Some (''3'' @ [CHR 0x0A] @ ''h1, FC=1'' @ [CHR 0x0A] @ ''h2, FC=0.5'' @ [CHR 0x0A]
                 @ ''h1, FC=0.5'' @ [CHR 0x0A] @ ''Objetivo'' @ [CHR 0x0A] @ ''h3'' @ [CHR 0x0A]))
          bh_vacia) = Loaded
   \<and> hechos_iniciales (fst (snd (cargarHechos
          (\<lambda>s. if s = ''1'' then StodValue (1 :: rat)
               else if s = ''0.5'' then StodValue (1 / 2) else StodInvalidArgument)
          (Some (''3'' @ [CHR 0x0A] @ ''h1, FC=1'' @ [CHR 0x0A] @ ''h2, FC=0.5'' @ [CHR 0x0A]
                 @ ''h1, FC=0.5'' @ [CHR 0x0A] @ ''Objetivo'' @ [CHR 0x0A] @ ''h3'' @ [CHR 0x0A]))
          bh_vacia)))
     = [\<lparr>nombre = ''h1'', factorCerteza = 1\<rparr>, \<lparr>nombre = ''h2'', factorCerteza = 1 / 2\<rparr>,
        \<lparr>nombre = ''h1'', factorCerteza = 1 / 2\<rparr>]
   \<and> dom (fc_memoria (fst (snd (cargarHechos
          (\<lambda>s. if s = ''1'' then StodValue (1 :: rat)
               else if s = ''0.5'' then StodValue (1 / 2) else StodInvalidArgument)
          (Some (''3'' @ [CHR 0x0A] @ ''h1, FC=1'' @ [CHR 0x0A] @ ''h2, FC=0.5'' @ [CHR 0x0A]
                 @ ''h1, FC=0.5'' @ [CHR 0x0A] @ ''Objetivo'' @ [CHR 0x0A] @ ''h3'' @ [CHR 0x0A]))
          bh_vacia)))) = {''h1'', ''h2''}
   \<and> fc_memoria (fst (snd (cargarHechos
          (\<lambda>s. if s = ''1'' then StodValue (1 :: rat)
               else if s = ''0.5'' then StodValue (1 / 2) else StodInvalidArgument)
          (Some (''3'' @ [CHR 0x0A] @ ''h1, FC=1'' @ [CHR 0x0A] @ ''h2, FC=0.5'' @ [CHR 0x0A]
                 @ ''h1, FC=0.5'' @ [CHR 0x0A] @ ''Objetivo'' @ [CHR 0x0A] @ ''h3'' @ [CHR 0x0A]))
          bh_vacia))) ''h1'' = Some (1 / 2)
   \<and> fc_memoria (fst (snd (cargarHechos
          (\<lambda>s. if s = ''1'' then StodValue (1 :: rat)
               else if s = ''0.5'' then StodValue (1 / 2) else StodInvalidArgument)
          (Some (''3'' @ [CHR 0x0A] @ ''h1, FC=1'' @ [CHR 0x0A] @ ''h2, FC=0.5'' @ [CHR 0x0A]
                 @ ''h1, FC=0.5'' @ [CHR 0x0A] @ ''Objetivo'' @ [CHR 0x0A] @ ''h3'' @ [CHR 0x0A]))
          bh_vacia))) ''h2'' = Some (1 / 2)"
proof -
  let ?stod = "\<lambda>s. if s = ''1'' then StodValue (1 :: rat)
               else if s = ''0.5'' then StodValue (1 / 2) else StodInvalidArgument"
  let ?f = "Some (''3'' @ [CHR 0x0A] @ ''h1, FC=1'' @ [CHR 0x0A] @ ''h2, FC=0.5'' @ [CHR 0x0A]
                 @ ''h1, FC=0.5'' @ [CHR 0x0A] @ ''Objetivo'' @ [CHR 0x0A] @ ''h3'' @ [CHR 0x0A])"
  let ?bh = "fst (snd (cargarHechos ?stod ?f bh_vacia))"
  let ?a = "\<lparr>nombre = ''h1'', factorCerteza = 1 :: rat\<rparr>"
  let ?b = "\<lparr>nombre = ''h2'', factorCerteza = 1 / 2 :: rat\<rparr>"
  let ?c = "\<lparr>nombre = ''h1'', factorCerteza = 1 / 2 :: rat\<rparr>"
  have ok: "fst (cargarHechos ?stod ?f bh_vacia) = Loaded" by code_simp
  have hs: "hechos_iniciales ?bh = [?a, ?b, ?c]" by code_simp
  note t = memoria_sembrada [OF ok refl]
  from t have d: "dom (fc_memoria ?bh) = nombre ` set (hechos_iniciales ?bh)" by blast
  from t have w: "hechos_iniciales ?bh = hs1 @ h # hs2 \<and> nombre h \<notin> nombre ` set hs2
               \<longrightarrow> fc_memoria ?bh (nombre h) = Some (factorCerteza h)" for hs1 h hs2
    by blast
  have d': "dom (fc_memoria ?bh) = {''h1'', ''h2''}"
    unfolding d hs by auto
  from w [of "[?a, ?b]" ?c "[]"] have m1: "fc_memoria ?bh ''h1'' = Some (1 / 2)"
    unfolding hs by simp
  from w [of "[?a]" ?b "[?c]"] have m2: "fc_memoria ?bh ''h2'' = Some (1 / 2)"
    unfolding hs by simp
  from ok hs d' m1 m2 show ?thesis by blast
qed

text \<open>
  Claim C5. Let the loop over the fact lines have ended well, with \<open>resto'\<close> left in the
  stream, in a fact base whose goal has no name yet. Blank lines are skipped. If no line
  that is not blank is left, \<^verbatim>\<open>cargarHechos\<close> fails with \<open>UnexpectedEOF\<close>. If the next
  such line, trimmed and case-folded, is not \<^verbatim>\<open>objetivo\<close>, it fails with
  \<open>MissingKeyword\<close>. If it is and no line that is not blank follows, the goal stays
  without a name and it fails with \<open>EmptyClause\<close>. Otherwise it succeeds, and the name of
  the goal is the next line that is not blank, trimmed and in its own case.
\<close>

theorem objetivo_tras_hechos:
  assumes "getline contenido = Some (hdr, resto)"
    and "stoi (strip hdr) = StoiValue n"
    and "fst (hechos_loop stod n 0 resto bh) = Loaded"
    and "resto' = fst (snd (hechos_loop stod n 0 resto bh))"
    and "nombre (objetivo bh) = []"
  shows "(siguiente_no_vacia resto' = None
            \<longrightarrow> fst (cargarHechos stod (Some contenido) bh) = Failed UnexpectedEOF)
         \<and> (\<forall>kw r1. siguiente_no_vacia resto' = Some (kw, r1) \<and> map tolower kw \<noteq> ''objetivo''
            \<longrightarrow> fst (cargarHechos stod (Some contenido) bh) = Failed MissingKeyword)
         \<and> (\<forall>kw r1. siguiente_no_vacia resto' = Some (kw, r1) \<and> map tolower kw = ''objetivo''
                \<and> siguiente_no_vacia r1 = None
            \<longrightarrow> fst (cargarHechos stod (Some contenido) bh) = Failed EmptyClause)
         \<and> (\<forall>kw r1 g r2. siguiente_no_vacia resto' = Some (kw, r1)
                \<and> map tolower kw = ''objetivo'' \<and> siguiente_no_vacia r1 = Some (g, r2)
            \<longrightarrow> fst (cargarHechos stod (Some contenido) bh) = Loaded
                \<and> nombre (objetivo (fst (snd (cargarHechos stod (Some contenido) bh)))) = g
                \<and> g \<noteq> [])"
proof -
  obtain out a' bh' where l: "hechos_loop stod n 0 resto bh = (out, a', bh')"
    by (cases "hechos_loop stod n 0 resto bh")
  with assms(3,4) have out: "out = Loaded" and a': "a' = resto'" by simp_all
  from hechos_loop_inv [OF l] assms(5) have e: "nombre (objetivo bh') = []" by auto
  have c: "fst (cargarHechos stod (Some contenido) bh) = fst (leer_objetivo resto' bh')"
    and d: "fst (snd (cargarHechos stod (Some contenido) bh)) = snd (leer_objetivo resto' bh')"
    using assms(1) assms(2) [folded trim_strip] l out a'
    by (simp_all add: cargarHechos_def Let_def split: prod.splits)
  show ?thesis
    unfolding c d leer_objetivo_eq using e
    by (auto dest: siguiente_no_vacia_nonempty)
qed

theorem objetivo_tras_hechos_witness:
  "fst (cargarHechos (\<lambda>s. if s = ''1'' then StodValue (1 :: rat) else StodInvalidArgument)
          (Some (''1'' @ [CHR 0x0A] @ ''h1, FC=1'' @ [CHR 0x0A] @ [CHR 0x0A]))
          bh_vacia) = Failed UnexpectedEOF
   \<and> fst (cargarHechos (\<lambda>s. if s = ''1'' then StodValue (1 :: rat) else StodInvalidArgument)
          (Some (''1'' @ [CHR 0x0A] @ ''h1, FC=1'' @ [CHR 0x0A] @ ''Meta'' @ [CHR 0x0A]
                 @ ''h3'' @ [CHR 0x0A]))
          bh_vacia) = Failed MissingKeyword
   \<and> fst (cargarHechos (\<lambda>s. if s = ''1'' then StodValue (1 :: rat) else StodInvalidArgument)
          (Some (''1'' @ [CHR 0x0A] @ ''h1, FC=1'' @ [CHR 0x0A] @ [CHR 0x0A] @ '' objetivo ''
                 @ [CHR 0x0A] @ [CHR 0x0A]))
          bh_vacia) = Failed EmptyClause
   \<and> fst (cargarHechos (\<lambda>s. if s = ''1'' then StodValue (1 :: rat) else StodInvalidArgument)
          (Some (''1'' @ [CHR 0x0A] @ ''h1, FC=1'' @ [CHR 0x0A] @ [CHR 0x0A] @ ''OBJETIVO''
                 @ [CHR 0x0A] @ [CHR 0x0A] @ ''  Hipotesis 3  '' @ [CHR 0x0A] @ ''zz''))
          bh_vacia) = Loaded
   \<and> nombre (objetivo (fst (snd (cargarHechos
          (\<lambda>s. if s = ''1'' then StodValue (1 :: rat) else StodInvalidArgument)
          (Some (''1'' @ [CHR 0x0A] @ ''h1, FC=1'' @ [CHR 0x0A] @ [CHR 0x0A] @ ''OBJETIVO''
                 @ [CHR 0x0A] @ [CHR 0x0A] @ ''  Hipotesis 3  '' @ [CHR 0x0A] @ ''zz''))
          bh_vacia)))) = ''Hipotesis 3''"
proof -
  let ?stod = "\<lambda>s. if s = ''1'' then StodValue (1 :: rat) else StodInvalidArgument"
  let ?r1 = "''h1, FC=1'' @ [CHR 0x0A] @ [CHR 0x0A]"
  let ?r2 = "''h1, FC=1'' @ [CHR 0x0A] @ ''Meta'' @ [CHR 0x0A] @ ''h3'' @ [CHR 0x0A]"
  let ?r3 = "''h1, FC=1'' @ [CHR 0x0A] @ [CHR 0x0A] @ '' objetivo '' @ [CHR 0x0A] @ [CHR 0x0A]"
  let ?r4 = "''h1, FC=1'' @ [CHR 0x0A] @ [CHR 0x0A] @ ''OBJETIVO''
                 @ [CHR 0x0A] @ [CHR 0x0A] @ ''  Hipotesis 3  '' @ [CHR 0x0A] @ ''zz''"
  have s: "stoi (strip ''1'') = StoiValue 1" by code_simp
  have e: "nombre (objetivo (bh_vacia :: rat BaseHechos)) = []" by code_simp
  have g1: "getline (''1'' @ [CHR 0x0A] @ ?r1) = Some (''1'', ?r1)" by code_simp
  have g2: "getline (''1'' @ [CHR 0x0A] @ ?r2) = Some (''1'', ?r2)" by code_simp
  have g3: "getline (''1'' @ [CHR 0x0A] @ ?r3) = Some (''1'', ?r3)" by code_simp
  have g4: "getline (''1'' @ [CHR 0x0A] @ ?r4) = Some (''1'', ?r4)" by code_simp
  have l1: "fst (hechos_loop ?stod 1 0 ?r1 bh_vacia) = Loaded" by code_simp
  have l2: "fst (hechos_loop ?stod 1 0 ?r2 bh_vacia) = Loaded" by code_simp
  have l3: "fst (hechos_loop ?stod 1 0 ?r3 bh_vacia) = Loaded" by code_simp
  have l4: "fst (hechos_loop ?stod 1 0 ?r4 bh_vacia) = Loaded" by code_simp
  have n1: "siguiente_no_vacia (fst (snd (hechos_loop ?stod 1 0 ?r1 bh_vacia))) = None"
    by code_simp
  have n2: "siguiente_no_vacia (fst (snd (hechos_loop ?stod 1 0 ?r2 bh_vacia)))
            = Some (''Meta'', ''h3'' @ [CHR 0x0A])"
    and k2: "map tolower ''Meta'' \<noteq> ''objetivo''"
    by code_simp+
  have n3: "siguiente_no_vacia (fst (snd (hechos_loop ?stod 1 0 ?r3 bh_vacia)))
            = Some (''objetivo'', [CHR 0x0A])"
    and k3: "map tolower ''objetivo'' = ''objetivo''"
    and m3: "siguiente_no_vacia [CHR 0x0A] = None"
    by code_simp+
  have n4: "siguiente_no_vacia (fst (snd (hechos_loop ?stod 1 0 ?r4 bh_vacia)))
            = Some (''OBJETIVO'', [CHR 0x0A] @ ''  Hipotesis 3  '' @ [CHR 0x0A] @ ''zz'')"
    and k4: "map tolower ''OBJETIVO'' = ''objetivo''"
    and m4: "siguiente_no_vacia ([CHR 0x0A] @ ''  Hipotesis 3  '' @ [CHR 0x0A] @ ''zz'')
             = Some (''Hipotesis 3'', ''zz'')"
    by code_simp+
  note c1 = objetivo_tras_hechos [OF g1 s l1 refl e, THEN conjunct1, rule_format, OF n1]
  note c2 = objetivo_tras_hechos [OF g2 s l2 refl e, THEN conjunct2, THEN conjunct1,
      rule_format, OF conjI [OF n2 k2]]
  note c3 = objetivo_tras_hechos [OF g3 s l3 refl e, THEN conjunct2, THEN conjunct2,
      THEN conjunct1, rule_format, OF conjI [OF n3 conjI [OF k3 m3]]]
  note c4 = objetivo_tras_hechos [OF g4 s l4 refl e, THEN conjunct2, THEN conjunct2,
      THEN conjunct2, rule_format, OF conjI [OF n4 conjI [OF k4 m4]]]
  from c1 c2 c3 c4 show ?thesis by simp
qed

section \<open>The certainty marker\<close>

lemma str_find_char_first:
  assumes "first_char_at c s k"
  shows "str_find s [c] 0 = Some k"
proof -
  from assms have k: "k < length s" "s ! k = c" and n: "c \<notin> set (take k s)"
    by (simp_all add: first_char_at_def)
  have "s ! q \<noteq> c" if "q < k" for q
  proof -
    from that k have "take k s ! q = s ! q" and "q < length (take k s)" by simp_all
    with n show ?thesis by (metis nth_mem)
  qed
  with k show ?thesis
    by (auto simp: str_find_Some_iff occurs_at_char)
qed

lemma str_rfind_char_last:
  assumes "last_char_at c s k"
  shows "str_rfind s [c] = Some k"
proof -
  from assms have k: "k < length s" "s ! k = c" and n: "c \<notin> set (drop (Suc k) s)"
    by (simp_all add: last_char_at_def)
  have "s ! q \<noteq> c" if "k < q" "q < length s" for q
  proof -
    from that have "drop (Suc k) s ! (q - Suc k) = s ! q"
      and "q - Suc k < length (drop (Suc k) s)" by simp_all
    with n show ?thesis by (metis nth_mem)
  qed
  with k show ?thesis
    by (auto simp: str_rfind_Some_iff occurs_at_char)
qed

lemma str_rfind_char_none:
  assumes "c \<notin> set s"
  shows "str_rfind s [c] = None"
  using assms nth_mem [of _ s] by (auto simp: str_rfind_None_iff occurs_at_char)

lemma str_rfind_from_char_upto:
  assumes "last_char_upto c s p k"
  shows "str_rfind_from s [c] p = Some k"
proof -
  from assms have k: "k \<le> p" "k < length s" "s ! k = c"
    and n: "c \<notin> set (take (p - k) (drop (Suc k) s))"
    by (simp_all add: last_char_upto_def)
  have "s ! q \<noteq> c" if "k < q" "q \<le> p" "q < length s" for q
  proof -
    from that have "q - Suc k < length s - Suc k \<and> q - Suc k < p - k" by arith
    with that have "take (p - k) (drop (Suc k) s) ! (q - Suc k) = s ! q"
      and "q - Suc k < length (take (p - k) (drop (Suc k) s))" by simp_all
    with n show ?thesis by (metis nth_mem)
  qed
  with k show ?thesis
    by (auto simp: str_rfind_from_Some_iff occurs_at_char)
qed

lemma str_rfind_from_char_none:
  assumes "c \<notin> set (take (Suc p) s)"
  shows "str_rfind_from s [c] p = None"
proof -
  have "s ! q \<noteq> c" if "q \<le> p" "q < length s" for q
  proof -
    from that have "take (Suc p) s ! q = s ! q" and "q < length (take (Suc p) s)" by simp_all
    with assms show ?thesis by (metis nth_mem)
  qed
  then show ?thesis
    by (auto simp: str_rfind_from_None_iff occurs_at_char)
qed

lemma str_rfind_last_occurrence:
  assumes "last_occurrence pat s p"
  shows "str_rfind s pat = Some p"
proof -
  from assms have o: "occurs_at s pat p"
    and n: "\<forall>q\<in>set [Suc p ..< Suc (length s)]. \<not> occurs_at s pat q"
    by (simp_all add: last_occurrence_def)
  have "\<not> occurs_at s pat q" if "p < q" for q
  proof (cases "q \<le> length s")
    case True
    with that have "q \<in> set [Suc p ..< Suc (length s)]" by (simp del: upt_Suc)
    with n show ?thesis by blast
  next
    case False
    then show ?thesis by (auto dest: occurs_at_le)
  qed
  with o show ?thesis by (simp add: str_rfind_Some_iff)
qed

lemma str_rfind_no_occurrence:
  assumes "no_occurrence pat s"
  shows "str_rfind s pat = None"
proof -
  have "\<not> occurs_at s pat q" for q
  proof (cases "q \<le> length s")
    case True
    then have "q \<in> set [0 ..< Suc (length s)]" by (simp del: upt_Suc)
    with assms show ?thesis unfolding no_occurrence_def by blast
  next
    case False
    then show ?thesis by (auto dest: occurs_at_le)
  qed
  then show ?thesis by (simp add: str_rfind_None_iff)
qed

lemma str_find_0_Some_0: "str_find s pat 0 = Some 0 \<longleftrightarrow> take (length pat) s = pat"
proof -
  have "length pat \<le> length s" if "take (length pat) s = pat"
  proof -
    from that have "length (take (length pat) s) = length pat" by simp
    then show ?thesis by simp
  qed
  then have "occurs_at s pat 0 \<longleftrightarrow> take (length pat) s = pat"
    by (auto simp: occurs_at_def)
  then show ?thesis by (simp add: str_find_Some_iff)
qed

lemma parsear_regla_pasos:
  assumes c: "first_char_at CHR '':'' linea pc"
    and b: "cuerpo = strip (drop (Suc pc) linea)"
  shows "no_occurrence ''fc='' (map tolower cuerpo)
           \<Longrightarrow> parsear_regla stod linea = Line_error MissingFCMarker"
    and "last_occurrence ''fc='' (map tolower cuerpo) p
           \<Longrightarrow> CHR '','' \<notin> set (take (Suc p) cuerpo)
           \<Longrightarrow> parsear_regla stod linea = Line_error MissingDelimiter"
    and "last_occurrence ''fc='' (map tolower cuerpo) p
           \<Longrightarrow> last_char_upto CHR '','' cuerpo p k
           \<Longrightarrow> parsear_regla stod linea =
                 regla_de_partes stod (strip (take pc linea)) (strip (drop (p + 3) cuerpo))
                   (strip (take k cuerpo))"
proof -
  note f = str_find_char_first [OF c]
  have u: "parsear_regla stod linea =
      (case str_rfind (map tolower cuerpo) ''fc='' of
         None \<Rightarrow> Line_error MissingFCMarker
       | Some posFc \<Rightarrow>
           (case str_rfind_from cuerpo [CHR '',''] posFc of
              None \<Rightarrow> Line_error MissingDelimiter
            | Some posComaAntesFc \<Rightarrow>
                regla_de_partes stod (strip (take pc linea))
                  (strip (drop (posFc + 3) cuerpo))
                  (strip (take posComaAntesFc cuerpo))))"
    unfolding parsear_regla_def f b Let_def substr_def substr_from_def trim_strip toLower_def
    by (simp add: numeral_3_eq_3 cong: option.case_cong)
  show "no_occurrence ''fc='' (map tolower cuerpo)
           \<Longrightarrow> parsear_regla stod linea = Line_error MissingFCMarker"
    by (simp add: u str_rfind_no_occurrence)
  show "last_occurrence ''fc='' (map tolower cuerpo) p
           \<Longrightarrow> CHR '','' \<notin> set (take (Suc p) cuerpo)
           \<Longrightarrow> parsear_regla stod linea = Line_error MissingDelimiter"
    by (simp add: u str_rfind_last_occurrence str_rfind_from_char_none)
  show "last_occurrence ''fc='' (map tolower cuerpo) p
           \<Longrightarrow> last_char_upto CHR '','' cuerpo p k
           \<Longrightarrow> parsear_regla stod linea =
                 regla_de_partes stod (strip (take pc linea)) (strip (drop (p + 3) cuerpo))
                   (strip (take k cuerpo))"
    by (simp add: u str_rfind_last_occurrence str_rfind_from_char_upto)
qed

lemma parsear_hecho_pasos:
  assumes c: "last_char_at CHR '','' linea k"
    and b: "sufijo = strip (drop (Suc k) linea)"
  shows "take 3 (map tolower sufijo) \<noteq> ''fc=''
           \<Longrightarrow> parsear_hecho stod linea = Line_error MissingKeyword"
    and "take 3 (map tolower sufijo) = ''fc=''
           \<Longrightarrow> parsear_hecho stod linea =
                 (case stod (strip (drop 3 sufijo)) of
                    StodValue fc \<Rightarrow> Line_ok \<lparr>nombre = strip (take k linea), factorCerteza = fc\<rparr>
                  | StodInvalidArgument \<Rightarrow> Line_error InvalidNumber
                  | StodOutOfRange \<Rightarrow> Line_out_of_range)"
proof -
  note f = str_rfind_char_last [OF c]
  have z: "str_find (map tolower sufijo) ''fc='' 0 = Some 0
           \<longleftrightarrow> take 3 (map tolower sufijo) = ''fc=''"
    using str_find_0_Some_0 [of "map tolower sufijo" "''fc=''"] by (simp add: numeral_3_eq_3)
  have u: "parsear_hecho stod linea =
      (if str_find (map tolower sufijo) ''fc='' 0 \<noteq> Some 0 then Line_error MissingKeyword
       else (case stod (strip (drop 3 sufijo)) of
               StodInvalidArgument \<Rightarrow> Line_error InvalidNumber
             | StodOutOfRange \<Rightarrow> Line_out_of_range
             | StodValue fc \<Rightarrow> Line_ok \<lparr>nombre = strip (take k linea), factorCerteza = fc\<rparr>))"
    unfolding parsear_hecho_def f b Let_def substr_def substr_from_def trim_strip toLower_def
    by (simp add: numeral_3_eq_3 cong: stod_result.case_cong)
  show "take 3 (map tolower sufijo) \<noteq> ''fc=''
           \<Longrightarrow> parsear_hecho stod linea = Line_error MissingKeyword"
    unfolding u z by simp
  show "take 3 (map tolower sufijo) = ''fc=''
           \<Longrightarrow> parsear_hecho stod linea =
                 (case stod (strip (drop 3 sufijo)) of
                    StodValue fc \<Rightarrow> Line_ok \<lparr>nombre = strip (take k linea), factorCerteza = fc\<rparr>
                  | StodInvalidArgument \<Rightarrow> Line_error InvalidNumber
                  | StodOutOfRange \<Rightarrow> Line_out_of_range)"
    unfolding u z by (simp split: stod_result.splits)
qed

text \<open>
  Claim C4. Rules: the body of a rule line is the text after the first colon, trimmed.
  With no \<^verbatim>\<open>fc=\<close> in the case-folded body the line fails with \<open>MissingFCMarker\<close>. With
  the last \<^verbatim>\<open>fc=\<close> at \<open>p\<close> and no comma at or before \<open>p\<close> it fails with
  \<open>MissingDelimiter\<close>. With the last \<^verbatim>\<open>fc=\<close> at \<open>p\<close> and the last comma at or before \<open>p\<close>
  at \<open>k\<close>, the rule is made from the text before \<open>k\<close> as the clause and the text after
  the marker as the certainty. Facts: a line with no comma fails with
  \<open>MissingDelimiter\<close>. With the last comma of the line at \<open>k'\<close>, the suffix is the text
  after it, trimmed: when the case-folded suffix does not begin with \<^verbatim>\<open>fc=\<close> the line
  fails with \<open>MissingKeyword\<close>, and when it does the name of the fact is the text before
  \<open>k'\<close>, trimmed, and its certainty is read from the suffix after the marker.
\<close>

theorem marcador_fc:
  "(first_char_at CHR '':'' linea pc \<and> cuerpo = strip (drop (Suc pc) linea)
     \<longrightarrow> (no_occurrence ''fc='' (map tolower cuerpo)
            \<longrightarrow> parsear_regla stod linea = Line_error MissingFCMarker)
         \<and> (last_occurrence ''fc='' (map tolower cuerpo) p
              \<and> CHR '','' \<notin> set (take (Suc p) cuerpo)
            \<longrightarrow> parsear_regla stod linea = Line_error MissingDelimiter)
         \<and> (last_occurrence ''fc='' (map tolower cuerpo) p
              \<and> last_char_upto CHR '','' cuerpo p k
            \<longrightarrow> parsear_regla stod linea =
                  regla_de_partes stod (strip (take pc linea)) (strip (drop (p + 3) cuerpo))
                    (strip (take k cuerpo))))
   \<and> (CHR '','' \<notin> set linea'
     \<longrightarrow> parsear_hecho stod linea' = Line_error MissingDelimiter)
   \<and> (last_char_at CHR '','' linea' k' \<and> sufijo = strip (drop (Suc k') linea')
     \<longrightarrow> (take 3 (map tolower sufijo) \<noteq> ''fc=''
            \<longrightarrow> parsear_hecho stod linea' = Line_error MissingKeyword)
         \<and> (take 3 (map tolower sufijo) = ''fc=''
            \<longrightarrow> parsear_hecho stod linea' =
                  (case stod (strip (drop 3 sufijo)) of
                     StodValue fc \<Rightarrow>
                       Line_ok \<lparr>nombre = strip (take k' linea'), factorCerteza = fc\<rparr>
                   | StodInvalidArgument \<Rightarrow> Line_error InvalidNumber
                   | StodOutOfRange \<Rightarrow> Line_out_of_range)))"
  using parsear_regla_pasos(1) [where linea = linea and pc = pc and cuerpo = cuerpo
      and stod = stod]
    parsear_regla_pasos(2) [where linea = linea and pc = pc and cuerpo = cuerpo
      and stod = stod and p = p]
    parsear_regla_pasos(3) [where linea = linea and pc = pc and cuerpo = cuerpo
      and stod = stod and p = p and k = k]
    parsear_hecho_pasos [where linea = linea' and k = k' and sufijo = sufijo and stod = stod]
    sin_coma [where linea = linea' and stod = stod]
  by blast

theorem marcador_fc_witness:
  "parsear_regla (\<lambda>s. if s = ''1'' then StodValue (1 :: rat) else StodInvalidArgument)
     ''R1: Si a Entonces b, FC = 1'' = Line_error MissingFCMarker
   \<and> parsear_regla (\<lambda>s. if s = ''1'' then StodValue (1 :: rat) else StodInvalidArgument)
     ''R1: Si a Entonces b FC=1, x'' = Line_error MissingDelimiter
   \<and> parsear_regla (\<lambda>s. if s = ''1'' then StodValue (1 :: rat) else StodInvalidArgument)
     ''R1: Si fc=a Entonces b, x FC=1''
     = regla_de_partes (\<lambda>s. if s = ''1'' then StodValue (1 :: rat) else StodInvalidArgument)
         ''R1'' ''1'' ''Si fc=a Entonces b''
   \<and> parsear_hecho (\<lambda>s. if s = ''1'' then StodValue (1 :: rat) else StodInvalidArgument)
     ''h1 FC=1'' = Line_error MissingDelimiter
   \<and> parsear_hecho (\<lambda>s. if s = ''1'' then StodValue (1 :: rat) else StodInvalidArgument)
     ''h1, x FC=1'' = Line_error MissingKeyword
   \<and> parsear_hecho (\<lambda>s. if s = ''1'' then StodValue (1 :: rat) else StodInvalidArgument)
     ''a,b , Fc=1'' = Line_ok \<lparr>nombre = ''a,b'', factorCerteza = 1\<rparr>"
proof -
  let ?stod = "\<lambda>s. if s = ''1'' then StodValue (1 :: rat) else StodInvalidArgument"
  have a1: "first_char_at CHR '':'' ''R1: Si a Entonces b, FC = 1'' 2
            \<and> ''Si a Entonces b, FC = 1'' = strip (drop (Suc 2) ''R1: Si a Entonces b, FC = 1'')"
    and a2: "no_occurrence ''fc='' (map tolower ''Si a Entonces b, FC = 1'')"
    by code_simp+
  note c1 = marcador_fc [where linea = "''R1: Si a Entonces b, FC = 1''" and pc = 2
      and cuerpo = "''Si a Entonces b, FC = 1''" and stod = ?stod,
      THEN conjunct1, rule_format, OF a1, THEN conjunct1, rule_format, OF a2]
  have b1: "first_char_at CHR '':'' ''R1: Si a Entonces b FC=1, x'' 2
            \<and> ''Si a Entonces b FC=1, x'' = strip (drop (Suc 2) ''R1: Si a Entonces b FC=1, x'')"
    and b2: "last_occurrence ''fc='' (map tolower ''Si a Entonces b FC=1, x'') 16
             \<and> CHR '','' \<notin> set (take (Suc 16) ''Si a Entonces b FC=1, x'')"
    by code_simp+
  note c2 = marcador_fc [where linea = "''R1: Si a Entonces b FC=1, x''" and pc = 2
      and cuerpo = "''Si a Entonces b FC=1, x''" and stod = ?stod and p = 16,
      THEN conjunct1, rule_format, OF b1, THEN conjunct2, THEN conjunct1, rule_format, OF b2]
  have d1: "first_char_at CHR '':'' ''R1: Si fc=a Entonces b, x FC=1'' 2
            \<and> ''Si fc=a Entonces b, x FC=1''
                = strip (drop (Suc 2) ''R1: Si fc=a Entonces b, x FC=1'')"
    and d2: "last_occurrence ''fc='' (map tolower ''Si fc=a Entonces b, x FC=1'') 22
             \<and> last_char_upto CHR '','' ''Si fc=a Entonces b, x FC=1'' 22 18"
    and d3: "strip (take 2 ''R1: Si fc=a Entonces b, x FC=1'') = ''R1''"
    and d4: "strip (drop (22 + 3) ''Si fc=a Entonces b, x FC=1'') = ''1''"
    and d5: "strip (take 18 ''Si fc=a Entonces b, x FC=1'') = ''Si fc=a Entonces b''"
    by code_simp+
  note c3 = marcador_fc [where linea = "''R1: Si fc=a Entonces b, x FC=1''" and pc = 2
      and cuerpo = "''Si fc=a Entonces b, x FC=1''" and stod = ?stod and p = 22 and k = 18,
      THEN conjunct1, rule_format, OF d1, THEN conjunct2, THEN conjunct2, rule_format, OF d2,
      unfolded d3 d4 d5]
  have e1: "CHR '','' \<notin> set ''h1 FC=1''" by simp
  note c4 = marcador_fc [where linea' = "''h1 FC=1''" and stod = ?stod,
      THEN conjunct2, THEN conjunct1, rule_format, OF e1]
  have f1: "last_char_at CHR '','' ''h1, x FC=1'' 2 \<and> ''x FC=1'' = strip (drop (Suc 2) ''h1, x FC=1'')"
    and f2: "take 3 (map tolower ''x FC=1'') \<noteq> ''fc=''"
    by code_simp+
  note c5 = marcador_fc [where linea' = "''h1, x FC=1''" and k' = 2 and sufijo = "''x FC=1''"
      and stod = ?stod,
      THEN conjunct2, THEN conjunct2, rule_format, OF f1, THEN conjunct1, rule_format, OF f2]
  have g1: "last_char_at CHR '','' ''a,b , Fc=1'' 4 \<and> ''Fc=1'' = strip (drop (Suc 4) ''a,b , Fc=1'')"
    and g2: "take 3 (map tolower ''Fc=1'') = ''fc=''"
    and g3: "strip (drop 3 ''Fc=1'') = ''1''"
    and g4: "strip (take 4 ''a,b , Fc=1'') = ''a,b''"
    by code_simp+
  note c6 = marcador_fc [where linea' = "''a,b , Fc=1''" and k' = 4 and sufijo = "''Fc=1''"
      and stod = ?stod,
      THEN conjunct2, THEN conjunct2, rule_format, OF g1, THEN conjunct2, rule_format, OF g2,
      unfolded g3 g4]
  from c6 have c6': "parsear_hecho ?stod ''a,b , Fc=1'' = Line_ok \<lparr>nombre = ''a,b'', factorCerteza = 1\<rparr>"
    by simp
  from c1 c2 c3 c4 c5 c6' show ?thesis by (intro conjI)
qed

section \<open>The antecedent parser and the words of the specification\<close>

lemma occurs_at_Nil: "occurs_at [] pat q \<longleftrightarrow> pat = [] \<and> q = 0"
  by (auto simp: occurs_at_def)

lemma occurs_at_Cons_0: "occurs_at (c # cs) pat 0 \<longleftrightarrow> take (length pat) (c # cs) = pat"
proof -
  have "length pat \<le> length (c # cs)" if "take (length pat) (c # cs) = pat"
  proof -
    from that have "length (take (length pat) (c # cs)) = length pat" by simp
    then show ?thesis by (simp del: take_Suc_Cons length_take add: length_take)
  qed
  then show ?thesis by (auto simp: occurs_at_def)
qed

lemma occurs_at_Cons_Suc: "occurs_at (c # cs) pat (Suc q) \<longleftrightarrow> occurs_at cs pat q"
  by (simp add: occurs_at_def)

lemma occurs_at_drop:
  "start \<le> length s \<Longrightarrow> occurs_at (drop start s) pat q \<longleftrightarrow> occurs_at s pat (start + q)"
  by (auto simp: occurs_at_def add.commute)

lemma first_pos_None_iff: "first_pos pat s = None \<longleftrightarrow> (\<forall>q. \<not> occurs_at s pat q)"
proof (induction s)
  case Nil
  then show ?case by (auto simp: occurs_at_Nil)
next
  case (Cons c cs)
  show ?case
  proof
    assume a: "first_pos pat (c # cs) = None"
    then have n0: "\<not> occurs_at (c # cs) pat 0" and "first_pos pat cs = None"
      by (auto simp: occurs_at_Cons_0 split: if_splits)
    with Cons have "\<And>q. \<not> occurs_at cs pat q" by simp
    then have "\<not> occurs_at (c # cs) pat q" for q
      using n0 by (cases q) (simp_all add: occurs_at_Cons_Suc)
    then show "\<forall>q. \<not> occurs_at (c # cs) pat q" by blast
  next
    assume a: "\<forall>q. \<not> occurs_at (c # cs) pat q"
    then have "\<not> occurs_at (c # cs) pat 0" and "\<And>q. \<not> occurs_at cs pat q"
      using occurs_at_Cons_Suc by blast+
    with Cons show "first_pos pat (c # cs) = None"
      by (simp add: occurs_at_Cons_0)
  qed
qed

lemma first_pos_Some_iff:
  "first_pos pat s = Some p \<longleftrightarrow> occurs_at s pat p \<and> (\<forall>q<p. \<not> occurs_at s pat q)"
proof (induction s arbitrary: p)
  case Nil
  then show ?case by (auto simp: occurs_at_Nil)
next
  case (Cons c cs)
  show ?case
  proof (cases "occurs_at (c # cs) pat 0")
    case True
    then have "first_pos pat (c # cs) = Some 0" by (simp add: occurs_at_Cons_0)
    moreover from True have "occurs_at (c # cs) pat p \<and> (\<forall>q<p. \<not> occurs_at (c # cs) pat q)
        \<longleftrightarrow> p = 0"
      by (cases p) auto
    ultimately show ?thesis by auto
  next
    case False
    then have f: "first_pos pat (c # cs) = map_option Suc (first_pos pat cs)"
      by (simp add: occurs_at_Cons_0)
    show ?thesis
    proof (cases p)
      case 0
      with False f show ?thesis by auto
    next
      case (Suc p')
      have "(\<forall>q<Suc p'. \<not> occurs_at (c # cs) pat q) \<longleftrightarrow> (\<forall>q<p'. \<not> occurs_at cs pat q)"
      proof
        assume "\<forall>q<Suc p'. \<not> occurs_at (c # cs) pat q"
        then show "\<forall>q<p'. \<not> occurs_at cs pat q"
          using occurs_at_Cons_Suc by (metis Suc_less_eq)
      next
        assume a: "\<forall>q<p'. \<not> occurs_at cs pat q"
        show "\<forall>q<Suc p'. \<not> occurs_at (c # cs) pat q"
        proof (intro allI impI)
          fix q assume "q < Suc p'"
          with a False show "\<not> occurs_at (c # cs) pat q"
            by (cases q) (simp_all add: occurs_at_Cons_Suc)
        qed
      qed
      with Suc f Cons [of p'] show ?thesis
        by (auto simp: occurs_at_Cons_Suc)
    qed
  qed
qed

lemma str_find_first_pos: "str_find s pat 0 = first_pos pat s"
proof (cases "first_pos pat s")
  case None
  then have "\<forall>q. \<not> occurs_at s pat q" by (simp add: first_pos_None_iff)
  then have "str_find s pat 0 = None" by (simp add: str_find_None_iff)
  with None show ?thesis by simp
next
  case (Some p)
  then have "occurs_at s pat p \<and> (\<forall>q<p. \<not> occurs_at s pat q)"
    by (simp add: first_pos_Some_iff)
  then have "str_find s pat 0 = Some p" by (simp add: str_find_Some_iff)
  with Some show ?thesis by simp
qed

lemma split_ci_Nil [simp]: "split_ci d piece [] = [piece]"
  by (simp add: split_ci.simps)

lemma split_ci_Cons:
  "split_ci d piece (c # cs) =
     (if d \<noteq> [] \<and> occurs_at (map tolower (c # cs)) d 0
      then piece # split_ci d [] (drop (length d) (c # cs))
      else split_ci d (piece @ [c]) cs)"
  by (subst split_ci.simps) (simp only: occurs_at_Cons_0 list.map)

lemma split_ci_none:
  "\<forall>q. \<not> occurs_at (map tolower s) d q \<Longrightarrow> split_ci d piece s = [piece @ s]"
proof (induction s arbitrary: piece)
  case Nil
  then show ?case by simp
next
  case (Cons c cs)
  from Cons.prems have n0: "\<not> occurs_at (map tolower (c # cs)) d 0"
    and "\<forall>q. \<not> occurs_at (map tolower cs) d q"
    using occurs_at_Cons_Suc [of "tolower c" "map tolower cs" d] by (simp_all)
  from Cons.IH [OF this(2), of "piece @ [c]"] n0 show ?case
    by (simp add: split_ci_Cons)
qed

lemma split_ci_first:
  "d \<noteq> [] \<Longrightarrow> occurs_at (map tolower s) d k \<Longrightarrow>
   \<forall>q<k. \<not> occurs_at (map tolower s) d q \<Longrightarrow>
   split_ci d piece s = (piece @ take k s) # split_ci d [] (drop (k + length d) s)"
proof (induction k arbitrary: s piece)
  case 0
  from "0.prems"(1,2) have "s \<noteq> []" by (auto simp: occurs_at_def)
  then obtain c cs where s: "s = c # cs" by (cases s) auto
  with "0.prems" show ?case by (simp add: split_ci_Cons)
next
  case (Suc k)
  from Suc.prems(2) have "s \<noteq> []" by (auto simp: occurs_at_def)
  then obtain c cs where s: "s = c # cs" by (cases s) auto
  from Suc.prems(3) s have n0: "\<not> occurs_at (map tolower (c # cs)) d 0" by simp
  from Suc.prems(2) s have o: "occurs_at (map tolower cs) d k"
    by (simp add: occurs_at_Cons_Suc)
  have n: "\<forall>q<k. \<not> occurs_at (map tolower cs) d q"
  proof (intro allI impI)
    fix q assume "q < k"
    then have "Suc q < Suc k" by simp
    with Suc.prems(3) s have "\<not> occurs_at (map tolower (c # cs)) d (Suc q)" by blast
    then show "\<not> occurs_at (map tolower cs) d q" by (simp add: occurs_at_Cons_Suc)
  qed
  from Suc.IH [OF Suc.prems(1) o n, of "piece @ [c]"] n0 s show ?case
    by (simp add: split_ci_Cons)
qed

lemma op_delim_nonempty [simp]: "op_delim c \<noteq> []"
  by (simp add: op_delim_def)

lemma split_while_split_ci:
  assumes "alfaLower = map tolower alfaStr"
    and "pos = str_find alfaLower (op_delim c) start"
    and "start \<le> length alfaStr"
  shows "snd (split_while c alfaStr alfaLower start pos lits)
           @ [trim (substr_from alfaStr (fst (split_while c alfaStr alfaLower start pos lits)))]
         = lits @ map strip (split_ci (op_delim c) [] (drop start alfaStr))"
  using assms
proof (induction c alfaStr alfaLower start pos lits rule: split_while.induct)
  case (1 c alfaStr alfaLower start pos lits)
  let ?d = "op_delim c"
  let ?s' = "drop start alfaStr"
  have low: "map tolower ?s' = drop start alfaLower"
    by (simp add: "1.prems"(1) drop_map)
  have sl: "start \<le> length alfaLower" using "1.prems"(1,3) by simp
  show ?case
  proof (cases pos)
    case None
    with "1.prems"(2) [symmetric] have "\<forall>q. start \<le> q \<longrightarrow> \<not> occurs_at alfaLower ?d q"
      by (simp add: str_find_None_iff)
    then have "\<forall>q. \<not> occurs_at (map tolower ?s') ?d q"
      unfolding low by (simp add: occurs_at_drop [OF sl])
    from split_ci_none [OF this, of "[]"] None show ?thesis
      by (simp add: trim_strip substr_from_def)
  next
    case (Some p)
    with "1.prems"(2) [symmetric] have sp: "start \<le> p" and o: "occurs_at alfaLower ?d p"
      and n: "\<forall>q. start \<le> q \<and> q < p \<longrightarrow> \<not> occurs_at alfaLower ?d q"
      by (simp_all add: str_find_Some_iff)
    from o have pl: "p + 3 \<le> length alfaStr"
      by (simp add: occurs_at_def "1.prems"(1))
    from o sp have o': "occurs_at (map tolower ?s') ?d (p - start)"
      unfolding low by (simp add: occurs_at_drop [OF sl])
    have n': "\<forall>q<p - start. \<not> occurs_at (map tolower ?s') ?d q"
      unfolding low using n by (simp add: occurs_at_drop [OF sl])
    from split_ci_first [OF op_delim_nonempty o' n', of "[]"] sp
    have sc: "split_ci ?d [] ?s' =
                take (p - start) ?s' # split_ci ?d [] (drop (p + 3) alfaStr)"
      by (simp add: add.commute)
    from pl have "p + length ?d \<le> length alfaStr" by simp
    from "1.IH" [OF Some "1.prems"(1) refl this]
    have "snd (split_while c alfaStr alfaLower (p + 3) (str_find alfaLower ?d (p + 3))
                 (lits @ [trim (substr alfaStr start (p - start))]))
          @ [trim (substr_from alfaStr
                (fst (split_while c alfaStr alfaLower (p + 3) (str_find alfaLower ?d (p + 3))
                 (lits @ [trim (substr alfaStr start (p - start))]))))]
          = (lits @ [trim (substr alfaStr start (p - start))])
            @ map strip (split_ci ?d [] (drop (p + 3) alfaStr))"
      by simp
    with Some sc show ?thesis
      by (simp add: trim_strip substr_def)
  qed
qed

lemma literales_spec: "literales texto = spec_literals texto"
proof -
  let ?low = "map tolower texto"
  have y: "opY = '' y ''" and o: "opO = '' o ''" by (simp_all add: opY_def opO_def op_delim_def)
  have dy: "op_delim CHR ''y'' = '' y ''" and dO: "op_delim CHR ''o'' = '' o ''"
    by (simp_all add: op_delim_def)
  have fy: "str_find ?low '' y '' 0 = first_pos '' y '' ?low"
    and fo: "str_find ?low '' o '' 0 = first_pos '' o '' ?low"
    by (rule str_find_first_pos)+
  have sy: "snd (split_while CHR ''y'' texto ?low 0 (first_pos '' y '' ?low) [])
           @ [trim (substr_from texto
                (fst (split_while CHR ''y'' texto ?low 0 (first_pos '' y '' ?low) [])))]
         = map strip (split_ci '' y '' [] texto)"
    using split_while_split_ci [where alfaLower = ?low and alfaStr = texto
        and pos = "first_pos '' y '' ?low" and c = "CHR ''y''" and start = 0 and lits = "[]"]
    by (simp add: dy fy)
  have so: "snd (split_while CHR ''o'' texto ?low 0 (first_pos '' o '' ?low) [])
           @ [trim (substr_from texto
                (fst (split_while CHR ''o'' texto ?low 0 (first_pos '' o '' ?low) [])))]
         = map strip (split_ci '' o '' [] texto)"
    using split_while_split_ci [where alfaLower = ?low and alfaStr = texto
        and pos = "first_pos '' o '' ?low" and c = "CHR ''o''" and start = 0 and lits = "[]"]
    by (simp add: dO fo)
  show ?thesis
    unfolding literales_def spec_literals_def Let_def toLower_def y o fy fo
    using sy so
    by (cases "first_pos '' y '' ?low"; cases "first_pos '' o '' ?low")
       (simp_all add: trim_strip split_beta)
qed

text \<open>
  Claim C2. For every antecedent text, \<^verbatim>\<open>parsearAntecedente\<close> on a fresh antecedent
  chooses the operator and the literals as \<open>spec_literals\<close> words it: \<open>Y\<close> when
  \<^verbatim>\<open>" y "\<close> stands in the case-folded text and \<^verbatim>\<open>" o "\<close> does not or stands later,
  with the text in its own case cut at every \<^verbatim>\<open>" y "\<close> from left to right and each piece
  trimmed; else \<open>O\<close> when \<^verbatim>\<open>" o "\<close> stands there, cut likewise; else \<open>NINGUNO\<close> with the
  whole trimmed text. The operator of the result is that operator; the call returns
  true exactly when no piece is empty, and then the names of the conditions are the
  pieces; when a piece is empty the names are the pieces before the first empty one.
\<close>

theorem antecedente_segun_spec:
  "operador (snd (parsearAntecedente texto (Antecedente_nuevo :: 'd Antecedente)))
     = fst (spec_literals texto)
   \<and> map nombre (condiciones (snd (parsearAntecedente texto
         (Antecedente_nuevo :: ('d::zero) Antecedente))))
       = takeWhile (\<lambda>l. l \<noteq> []) (snd (spec_literals texto))
   \<and> (fst (parsearAntecedente texto (Antecedente_nuevo :: 'd Antecedente)) = None
        \<longleftrightarrow> [] \<notin> set (snd (spec_literals texto)))"
proof -
  obtain op ls where l: "literales texto = (op, ls)" by (cases "literales texto")
  from literales_shape [OF l] have ne: "ls \<noteq> []" by auto
  from l have s: "spec_literals texto = (op, ls)" by (simp add: literales_spec)
  let ?a0 = "(Antecedente_nuevo :: 'd Antecedente)\<lparr>operador := op\<rparr>"
  have p: "parsearAntecedente texto (Antecedente_nuevo :: 'd Antecedente)
           = push_literales ls ?a0"
    by (simp add: parsearAntecedente_def l)
  have m: "map (nombre \<circ> (\<lambda>l. (Hecho_nuevo :: 'd Hecho)\<lparr>nombre := l\<rparr>)) xs = xs" for xs
    by (induction xs) simp_all
  from push_literales_result [of ls ?a0] ne show ?thesis
    unfolding p s by (simp add: Antecedente_nuevo_def m)
qed

theorem antecedente_segun_spec_witness:
  "parsearAntecedente ''a o b Y c'' Antecedente_nuevo
     = (None, \<lparr>condiciones = [\<lparr>nombre = ''a'', factorCerteza = 0 :: int\<rparr>,
                              \<lparr>nombre = ''b Y c'', factorCerteza = 0\<rparr>],
              operador = O'\<rparr>)
   \<and> spec_literals ''a o b Y c'' = (O', [''a'', ''b Y c''])
   \<and> parsearAntecedente ''Fiebre  Y tos y  dolor O nada'' Antecedente_nuevo
     = (None, \<lparr>condiciones = [\<lparr>nombre = ''Fiebre'', factorCerteza = 0 :: int\<rparr>,
                              \<lparr>nombre = ''tos'', factorCerteza = 0\<rparr>,
                              \<lparr>nombre = ''dolor O nada'', factorCerteza = 0\<rparr>],
              operador = Y\<rparr>)
   \<and> spec_literals ''Fiebre  Y tos y  dolor O nada'' = (Y, [''Fiebre'', ''tos'', ''dolor O nada''])
   \<and> fst (parsearAntecedente ''a y  y b'' (Antecedente_nuevo :: int Antecedente))
     = Some EmptyLiteral
   \<and> spec_literals ''a y  y b'' = (Y, [''a'', [], ''b''])
   \<and> map nombre (condiciones (snd (parsearAntecedente ''a y  y b''
          (Antecedente_nuevo :: int Antecedente)))) = [''a'']"
proof -
  have s1: "spec_literals ''a o b Y c'' = (O', [''a'', ''b Y c''])"
    and s2: "spec_literals ''Fiebre  Y tos y  dolor O nada''
             = (Y, [''Fiebre'', ''tos'', ''dolor O nada''])"
    and s3: "spec_literals ''a y  y b'' = (Y, [''a'', [], ''b''])"
    by code_simp+
  let ?p1 = "parsearAntecedente ''a o b Y c'' (Antecedente_nuevo :: int Antecedente)"
  let ?p2 = "parsearAntecedente ''Fiebre  Y tos y  dolor O nada''
               (Antecedente_nuevo :: int Antecedente)"
  let ?p3 = "parsearAntecedente ''a y  y b'' (Antecedente_nuevo :: int Antecedente)"
  note t1 = antecedente_segun_spec [where texto = "''a o b Y c''" and 'd = int, unfolded s1]
  note t2 = antecedente_segun_spec [where texto = "''Fiebre  Y tos y  dolor O nada''"
      and 'd = int, unfolded s2]
  note t3 = antecedente_segun_spec [where texto = "''a y  y b''" and 'd = int, unfolded s3]
  have e1: "?p1 = (None, \<lparr>condiciones = [\<lparr>nombre = ''a'', factorCerteza = 0 :: int\<rparr>,
                              \<lparr>nombre = ''b Y c'', factorCerteza = 0\<rparr>],
              operador = O'\<rparr>)"
    by code_simp
  have e2: "?p2 = (None, \<lparr>condiciones = [\<lparr>nombre = ''Fiebre'', factorCerteza = 0 :: int\<rparr>,
                              \<lparr>nombre = ''tos'', factorCerteza = 0\<rparr>,
                              \<lparr>nombre = ''dolor O nada'', factorCerteza = 0\<rparr>],
              operador = Y\<rparr>)"
    by code_simp
  from t3 [THEN conjunct2, THEN conjunct1]
  have e4: "map nombre (condiciones (snd ?p3)) = [''a'']" by simp
  have "fst ?p3 = Some EmptyLiteral" by code_simp
  with t1 t2 e1 e2 e4 s1 s2 s3 show ?thesis by simp
qed

section \<open>A line that fails\<close>

text \<open>
  Claim C6. A data line that fails leaves the containers as the lines before it made
  them. Rules: in a file whose count line gives \<open>n\<close>, after lines \<open>ls\<close> that are blank or
  parse to a rule (fewer than \<open>n\<close> rules), a line that is not blank and on which the loop
  body fails with \<open>e\<close> makes \<^verbatim>\<open>cargarReglas\<close> return false with \<open>e\<close>, and the knowledge
  base holds its former rules followed by the rules of \<open>ls\<close> and nothing else. A rule
  line with a colon, a marker \<^verbatim>\<open>fc=\<close>, a comma before it and a number after it, whose
  clause (the text between the colon and that comma) has no \<^verbatim>\<open>" entonces "\<close> from
  position 3 on in its case-folded text, is such a failure, with \<open>MissingKeyword\<close>.
  Facts: likewise, a line that is not blank and has no comma
  makes \<^verbatim>\<open>cargarHechos\<close> return false with \<open>MissingDelimiter\<close>, and the initial facts
  and the working memory hold what they held plus the facts of \<open>ls'\<close> and nothing else.
\<close>

theorem fallo_atomico:
  "(lineas contenido = hdr # ls @ bad # otras
      \<and> stoi (strip hdr) = StoiValue n
      \<and> (\<forall>l\<in>set ls. linea_regla_ok stod l)
      \<and> int (length (reglas_de stod ls)) < n
      \<and> strip bad \<noteq> []
      \<and> parsear_regla stod (strip bad) = Line_error e
    \<longrightarrow> cargarReglas stod (Some contenido) bc =
          (Failed e, bc\<lparr>reglas := reglas bc @ reglas_de stod ls\<rparr>, []))
   \<and> (first_char_at CHR '':'' linea pc \<and> cuerpo = strip (drop (Suc pc) linea)
      \<and> last_occurrence ''fc='' (map tolower cuerpo) p
      \<and> last_char_upto CHR '','' cuerpo p k
      \<and> stod (strip (drop (p + 3) cuerpo)) = StodValue fc
      \<and> (\<forall>q. 3 \<le> q
             \<longrightarrow> \<not> occurs_at (map tolower (strip (take k cuerpo))) '' entonces '' q)
    \<longrightarrow> parsear_regla stod linea = Line_error MissingKeyword)
   \<and> (lineas contenido' = hdr' # ls' @ bad' # otras'
      \<and> stoi (strip hdr') = StoiValue n'
      \<and> (\<forall>l\<in>set ls'. linea_hecho_ok stod l)
      \<and> int (length (hechos_de stod ls')) < n'
      \<and> strip bad' \<noteq> []
      \<and> CHR '','' \<notin> set bad'
    \<longrightarrow> cargarHechos stod (Some contenido') bh =
          (Failed MissingDelimiter,
           bh\<lparr>hechos_iniciales := hechos_iniciales bh @ hechos_de stod ls',
              fc_memoria := fc_memoria bh ++ memoria_de (hechos_de stod ls')\<rparr>, []))"
proof (intro conjI impI)
  assume "lineas contenido = hdr # ls @ bad # otras
      \<and> stoi (strip hdr) = StoiValue n
      \<and> (\<forall>l\<in>set ls. linea_regla_ok stod l)
      \<and> int (length (reglas_de stod ls)) < n
      \<and> strip bad \<noteq> []
      \<and> parsear_regla stod (strip bad) = Line_error e"
  then show "cargarReglas stod (Some contenido) bc =
          (Failed e, bc\<lparr>reglas := reglas bc @ reglas_de stod ls\<rparr>, [])"
    by (intro cargarReglas_linea_mala) blast+
next
  assume a: "first_char_at CHR '':'' linea pc \<and> cuerpo = strip (drop (Suc pc) linea)
      \<and> last_occurrence ''fc='' (map tolower cuerpo) p
      \<and> last_char_upto CHR '','' cuerpo p k
      \<and> stod (strip (drop (p + 3) cuerpo)) = StodValue fc
      \<and> (\<forall>q. 3 \<le> q
             \<longrightarrow> \<not> occurs_at (map tolower (strip (take k cuerpo))) '' entonces '' q)"
  then have "parsear_regla stod linea =
      regla_de_partes stod (strip (take pc linea)) (strip (drop (p + 3) cuerpo))
        (strip (take k cuerpo))"
    by (intro parsear_regla_pasos(3)) blast+
  moreover from a have x: "stod (strip (drop (p + 3) cuerpo)) = StodValue fc"
    and y: "\<forall>q. 3 \<le> q
             \<longrightarrow> \<not> occurs_at (map tolower (strip (take k cuerpo))) '' entonces '' q"
    by blast+
  have "regla_de_partes stod (strip (take pc linea))
      (strip (drop (p + 3) cuerpo)) (strip (take k cuerpo)) = Line_error MissingKeyword"
    by (rule sin_entonces [where stod = stod and fcValorStr = "strip (drop (p + 3) cuerpo)"
          and fc = fc, OF x y [folded toLower_def]])
  ultimately show "parsear_regla stod linea = Line_error MissingKeyword" by simp
next
  assume a: "lineas contenido' = hdr' # ls' @ bad' # otras'
      \<and> stoi (strip hdr') = StoiValue n'
      \<and> (\<forall>l\<in>set ls'. linea_hecho_ok stod l)
      \<and> int (length (hechos_de stod ls')) < n'
      \<and> strip bad' \<noteq> []
      \<and> CHR '','' \<notin> set bad'"
  then have "CHR '','' \<notin> set (strip bad')"
    by (auto simp: strip_def dest!: set_dropWhileD)
  then have "parsear_hecho stod (strip bad') = Line_error MissingDelimiter"
    by (rule sin_coma)
  with a show "cargarHechos stod (Some contenido') bh =
          (Failed MissingDelimiter,
           bh\<lparr>hechos_iniciales := hechos_iniciales bh @ hechos_de stod ls',
              fc_memoria := fc_memoria bh ++ memoria_de (hechos_de stod ls')\<rparr>, [])"
    by (intro cargarHechos_linea_mala) blast+
qed

theorem fallo_atomico_witness:
  "cargarReglas (\<lambda>s. if s = ''1'' then StodValue (1 :: rat) else StodInvalidArgument)
     (Some (''2'' @ [CHR 0x0A] @ ''R1: Si a Entonces b, FC=1'' @ [CHR 0x0A]
            @ ''R2: Si c luego d, FC=1'' @ [CHR 0x0A]))
     bc_vacia
   = (Failed MissingKeyword,
      \<lparr>reglas = [\<lparr>id' = ''R1'',
                   antecedente = \<lparr>condiciones = [\<lparr>nombre = ''a'', factorCerteza = 0\<rparr>],
                                  operador = NINGUNO\<rparr>,
                   consecuente = \<lparr>nombre = ''b'', factorCerteza = 0\<rparr>,
                   factorCertezaRegla = 1\<rparr>]\<rparr>, [])
   \<and> parsear_regla (\<lambda>s. if s = ''1'' then StodValue (1 :: rat) else StodInvalidArgument)
       ''R2: Si c luego d, FC=1'' = Line_error MissingKeyword
   \<and> fst (cargarHechos (\<lambda>s. if s = ''1'' then StodValue (1 :: rat) else StodInvalidArgument)
       (Some (''2'' @ [CHR 0x0A] @ ''h1, FC=1'' @ [CHR 0x0A] @ ''h2 FC=1'' @ [CHR 0x0A]))
       bh_vacia) = Failed MissingDelimiter
   \<and> hechos_iniciales (fst (snd (cargarHechos
       (\<lambda>s. if s = ''1'' then StodValue (1 :: rat) else StodInvalidArgument)
       (Some (''2'' @ [CHR 0x0A] @ ''h1, FC=1'' @ [CHR 0x0A] @ ''h2 FC=1'' @ [CHR 0x0A]))
       bh_vacia))) = [\<lparr>nombre = ''h1'', factorCerteza = 1\<rparr>]
   \<and> dom (fc_memoria (fst (snd (cargarHechos
       (\<lambda>s. if s = ''1'' then StodValue (1 :: rat) else StodInvalidArgument)
       (Some (''2'' @ [CHR 0x0A] @ ''h1, FC=1'' @ [CHR 0x0A] @ ''h2 FC=1'' @ [CHR 0x0A]))
       bh_vacia)))) = {''h1''}"
proof -
  let ?stod = "\<lambda>s. if s = ''1'' then StodValue (1 :: rat) else StodInvalidArgument"
  let ?rf = "''2'' @ [CHR 0x0A] @ ''R1: Si a Entonces b, FC=1'' @ [CHR 0x0A]
            @ ''R2: Si c luego d, FC=1'' @ [CHR 0x0A]"
  let ?hf = "''2'' @ [CHR 0x0A] @ ''h1, FC=1'' @ [CHR 0x0A] @ ''h2 FC=1'' @ [CHR 0x0A]"
  note t = fallo_atomico [where contenido = ?rf and hdr = "''2''"
      and ls = "[''R1: Si a Entonces b, FC=1'']" and bad = "''R2: Si c luego d, FC=1''"
      and otras = "[]" and n = 2 and stod = ?stod and e = MissingKeyword and bc = bc_vacia
      and linea = "''R2: Si c luego d, FC=1''" and pc = 2 and cuerpo = "''Si c luego d, FC=1''"
      and p = 14 and k = 12 and fc = 1
      and contenido' = ?hf and hdr' = "''2''" and ls' = "[''h1, FC=1'']"
      and bad' = "''h2 FC=1''" and otras' = "[]" and n' = 2 and bh = bh_vacia]
  have r1: "lineas ?rf = ''2'' # [''R1: Si a Entonces b, FC=1''] @ ''R2: Si c luego d, FC=1'' # []"
    by code_simp
  have r2: "stoi (strip ''2'') = StoiValue 2" by code_simp
  have r3: "\<forall>l\<in>set [''R1: Si a Entonces b, FC=1'']. linea_regla_ok ?stod l" by code_simp
  have r4: "int (length (reglas_de ?stod [''R1: Si a Entonces b, FC=1''])) < 2" by code_simp
  have r5: "strip ''R2: Si c luego d, FC=1'' \<noteq> []" by code_simp
  have r6: "parsear_regla ?stod (strip ''R2: Si c luego d, FC=1'') = Line_error MissingKeyword"
    by code_simp
  have r7: "reglas_de ?stod [''R1: Si a Entonces b, FC=1''] =
      [\<lparr>id' = ''R1'',
                   antecedente = \<lparr>condiciones = [\<lparr>nombre = ''a'', factorCerteza = 0\<rparr>],
                                  operador = NINGUNO\<rparr>,
                   consecuente = \<lparr>nombre = ''b'', factorCerteza = 0\<rparr>,
                   factorCertezaRegla = 1\<rparr>]"
    by code_simp
  from t r1 r2 r3 r4 r5 r6
  have "cargarReglas ?stod (Some ?rf) bc_vacia =
          (Failed MissingKeyword,
           bc_vacia\<lparr>reglas := reglas bc_vacia
              @ reglas_de ?stod [''R1: Si a Entonces b, FC=1'']\<rparr>, [])"
    by blast
  then have c1: "cargarReglas ?stod (Some ?rf) bc_vacia =
     (Failed MissingKeyword,
      \<lparr>reglas = [\<lparr>id' = ''R1'',
                   antecedente = \<lparr>condiciones = [\<lparr>nombre = ''a'', factorCerteza = 0\<rparr>],
                                  operador = NINGUNO\<rparr>,
                   consecuente = \<lparr>nombre = ''b'', factorCerteza = 0\<rparr>,
                   factorCertezaRegla = 1\<rparr>]\<rparr>, [])"
    unfolding r7 by (simp add: bc_vacia_def)
  have s0: "first_char_at CHR '':'' ''R2: Si c luego d, FC=1'' 2
            \<and> ''Si c luego d, FC=1'' = strip (drop (Suc 2) ''R2: Si c luego d, FC=1'')
            \<and> last_occurrence ''fc='' (map tolower ''Si c luego d, FC=1'') 14
            \<and> last_char_upto CHR '','' ''Si c luego d, FC=1'' 14 12"
    by code_simp
  have s1: "?stod (strip (drop (14 + 3) ''Si c luego d, FC=1'')) = StodValue 1" by code_simp
  have s2: "\<forall>q. 3 \<le> q \<longrightarrow>
      \<not> occurs_at (map tolower (strip (take 12 ''Si c luego d, FC=1''))) '' entonces '' q"
  proof (intro allI impI)
    fix q :: nat
    have "str_find (map tolower (strip (take 12 ''Si c luego d, FC=1''))) '' entonces '' 0 = None"
      by code_simp
    then show "\<not> occurs_at (map tolower (strip (take 12 ''Si c luego d, FC=1'')))
                 '' entonces '' q"
      by (simp add: str_find_None_iff)
  qed
  from t s0 s1 s2
  have c2: "parsear_regla ?stod ''R2: Si c luego d, FC=1'' = Line_error MissingKeyword"
    by blast
  have h1: "lineas ?hf = ''2'' # [''h1, FC=1''] @ ''h2 FC=1'' # []" by code_simp
  have h3: "\<forall>l\<in>set [''h1, FC=1'']. linea_hecho_ok ?stod l" by code_simp
  have h4: "int (length (hechos_de ?stod [''h1, FC=1''])) < 2" by code_simp
  have h5: "strip ''h2 FC=1'' \<noteq> []" by code_simp
  have h6: "CHR '','' \<notin> set ''h2 FC=1''" by simp
  have h7: "hechos_de ?stod [''h1, FC=1''] = [\<lparr>nombre = ''h1'', factorCerteza = 1\<rparr>]"
    by code_simp
  from t h1 r2 h3 h4 h5 h6
  have c3: "cargarHechos ?stod (Some ?hf) bh_vacia =
          (Failed MissingDelimiter,
           bh_vacia\<lparr>hechos_iniciales := hechos_iniciales bh_vacia @ hechos_de ?stod [''h1, FC=1''],
              fc_memoria := fc_memoria bh_vacia ++ memoria_de (hechos_de ?stod [''h1, FC=1''])\<rparr>,
           [])"
    by blast
  show ?thesis
    unfolding c1 c2 c3 h7 by (simp add: bh_vacia_def memoria_de_def)
qed

end
